(* ===== verification/Prelude.thy ===== *)
theory Prelude
  imports Complex_Main "HOL-Library.Word" "HOL-Library.Sublist"
begin

text \<open>
  Shared vocabulary of the development.

  Go methods run in a small state monad: a program takes the state and returns an outcome with
  the new state. \<open>None\<close> is a call that never returns (a loop that runs for ever, a send or
  receive that blocks for ever); a run-time panic is an outcome of its own, so that every nil
  dereference and out-of-range index of the source is a branch of the model. A Go error is not a
  panic: it is an ordinary result.

  The file also fixes the types the components share: 64-bit integers and durations, points in
  time, contexts with a deadline, slices and errors.
\<close>

section \<open>Collections of facts\<close>

named_theorems prog_simps \<open>equations of the program combinators\<close>
named_theorems go_defs \<open>definitions of small operations that automation may always unfold\<close>

section \<open>Logic\<close>

lemma ex_image_conj: "(\<exists>t. (\<exists>i. P i \<and> t = g i) \<and> x = h t) \<longleftrightarrow> (\<exists>i. P i \<and> x = h (g i))"
  by blast

section \<open>Outcomes and programs\<close>

datatype go_panic = NilDereference | IndexOutOfRange | PanicMessage string

datatype 'a outcome = Ret 'a | Panic go_panic

type_synonym ('s, 'a) prog = "'s \<Rightarrow> ('a outcome \<times> 's) option"

definition ret :: "'a \<Rightarrow> ('s, 'a) prog" where
  "ret a = (\<lambda>s. Some (Ret a, s))"

definition panic :: "go_panic \<Rightarrow> ('s, 'a) prog" where
  "panic p = (\<lambda>s. Some (Panic p, s))"

definition bindP :: "('s, 'a) prog \<Rightarrow> ('a \<Rightarrow> ('s, 'b) prog) \<Rightarrow> ('s, 'b) prog" where
  "bindP m f = (\<lambda>s. case m s of
      None \<Rightarrow> None
    | Some (Panic p, s') \<Rightarrow> Some (Panic p, s')
    | Some (Ret a, s') \<Rightarrow> f a s')"

definition liftO :: "'a outcome \<Rightarrow> ('s, 'a) prog" where
  "liftO r = (\<lambda>s. Some (r, s))"

definition modifyP :: "('s \<Rightarrow> 's) \<Rightarrow> ('s, unit) prog" where
  "modifyP f = (\<lambda>s. Some (Ret (), f s))"

definition readP :: "('s \<Rightarrow> 'a) \<Rightarrow> ('s, 'a) prog" where
  "readP f = (\<lambda>s. Some (Ret (f s), s))"

lemma ret_apply [simp, prog_simps]: "ret a s = Some (Ret a, s)"
  by (simp add: ret_def)

lemma panic_apply [simp, prog_simps]: "panic p s = Some (Panic p, s)"
  by (simp add: panic_def)

lemma liftO_apply [simp, prog_simps]: "liftO r s = Some (r, s)"
  by (simp add: liftO_def)

lemma modifyP_apply [simp, prog_simps]: "modifyP f s = Some (Ret (), f s)"
  by (simp add: modifyP_def)

lemma readP_apply [simp, prog_simps]: "readP f s = Some (Ret (f s), s)"
  by (simp add: readP_def)

lemma bindP_Ret [simp]: "m s = Some (Ret a, s') \<Longrightarrow> bindP m f s = f a s'"
  by (simp add: bindP_def)

lemma bindP_Ret_bool [simp]:
  "m s = Some (Ret True, s') \<Longrightarrow> bindP m g s = g True s'"
  "m s = Some (Ret False, s') \<Longrightarrow> bindP m g s = g False s'"
  by (simp_all add: bindP_def)

lemma bindP_Panic [simp]: "m s = Some (Panic p, s') \<Longrightarrow> bindP m f s = Some (Panic p, s')"
  by (simp add: bindP_def)

lemma bindP_None [simp]: "m s = None \<Longrightarrow> bindP m f s = None"
  by (simp add: bindP_def)

lemma bindP_now [simp, prog_simps]:
  "bindP (ret a) f s = f a s"
  "bindP (panic p) g s = Some (Panic p, s)"
  "bindP (liftO r) f s = (case r of Ret a \<Rightarrow> f a s | Panic p \<Rightarrow> Some (Panic p, s))"
  "bindP (modifyP h) k s = k () (h s)"
  "bindP (readP q) l s = l (q s) s"
  by (simp_all add: bindP_def ret_def panic_def liftO_def modifyP_def readP_def split: outcome.split)

lemma bindP_SomeE:
  assumes "bindP m f s = Some (r, s')"
  obtains (panic) p where "m s = Some (Panic p, s')" and "r = Panic p"
  | (ret) a t where "m s = Some (Ret a, t)" and "f a t = Some (r, s')"
  using assms by (auto simp: bindP_def split: option.splits prod.splits outcome.splits)

lemma bindP_RetE:
  assumes "bindP m f s = Some (Ret b, s')"
  obtains a t where "m s = Some (Ret a, t)" and "f a t = Some (Ret b, s')"
  using assms by (auto elim: bindP_SomeE)

lemma bindP_ret_left: "bindP (ret a) f = f a"
  by (rule ext) simp

lemma bindP_assoc: "bindP (bindP m f) g = bindP m (\<lambda>a. bindP (f a) g)"
  by (rule ext) (auto simp: bindP_def split: option.splits prod.splits outcome.splits)

text \<open>A program keeps a property of the state when every state it can end in has it.\<close>

definition keeps :: "('s \<Rightarrow> bool) \<Rightarrow> ('s, 'a) prog \<Rightarrow> bool" where
  "keeps I m \<longleftrightarrow> (\<forall>s r s'. I s \<longrightarrow> m s = Some (r, s') \<longrightarrow> I s')"

lemma keepsI: "(\<And>s r s'. I s \<Longrightarrow> m s = Some (r, s') \<Longrightarrow> I s') \<Longrightarrow> keeps I m"
  by (auto simp: keeps_def)

lemma keepsD: "keeps I m \<Longrightarrow> I s \<Longrightarrow> m s = Some (r, s') \<Longrightarrow> I s'"
  by (auto simp: keeps_def)

lemma keeps_ret [simp, intro]: "keeps I (ret a)"
  by (auto intro: keepsI)

lemma keeps_panic [simp, intro]: "keeps I (panic p)"
  by (auto intro: keepsI)

lemma keeps_liftO [simp, intro]: "keeps I (liftO r)"
  by (auto intro: keepsI)

lemma keeps_readP [simp, intro]: "keeps I (readP f)"
  by (auto intro: keepsI)

lemma keeps_modifyP: "(\<And>s. I s \<Longrightarrow> I (f s)) \<Longrightarrow> keeps I (modifyP f)"
  by (auto intro: keepsI)

lemma keeps_bindP [intro]: "keeps I m \<Longrightarrow> (\<And>a. keeps I (f a)) \<Longrightarrow> keeps I (bindP m f)"
  by (rule keepsI) (auto elim!: bindP_SomeE dest: keepsD)

lemma keeps_if: "keeps I a \<Longrightarrow> keeps I b \<Longrightarrow> keeps I (if P then a else b)"
  by simp

lemma keeps_option: "keeps I a \<Longrightarrow> (\<And>y. keeps I (f y)) \<Longrightarrow> keeps I (case x of None \<Rightarrow> a | Some y \<Rightarrow> f y)"
  by (cases x) simp_all

lemma keeps_sum: "(\<And>y. keeps I (f y)) \<Longrightarrow> (\<And>y. keeps I (g y)) \<Longrightarrow>
    keeps I (case x of Inl y \<Rightarrow> f y | Inr y \<Rightarrow> g y)"
  by (cases x) simp_all

lemma keeps_prod: "(\<And>a b. keeps I (f a b)) \<Longrightarrow> keeps I (case x of (a, b) \<Rightarrow> f a b)"
  by (cases x) simp

lemma keeps_let: "keeps I (f a) \<Longrightarrow> keeps I (Let a f)"
  by simp

lemmas keeps_intros = keeps_bindP keeps_if keeps_option keeps_sum keeps_prod keeps_let
  keeps_ret keeps_panic keeps_liftO keeps_readP

text \<open>
  A program returns on a set of states when it returns from each of them. Composition needs the
  set to be kept.
\<close>

definition returns_on :: "('s \<Rightarrow> bool) \<Rightarrow> ('s, 'a) prog \<Rightarrow> bool" where
  "returns_on I m \<longleftrightarrow> keeps I m \<and> (\<forall>s. I s \<longrightarrow> m s \<noteq> None)"

lemma returns_onI: "keeps I m \<Longrightarrow> (\<And>s. I s \<Longrightarrow> \<exists>r s'. m s = Some (r, s')) \<Longrightarrow> returns_on I m"
  by (fastforce simp: returns_on_def)

lemma returns_onD: "returns_on I m \<Longrightarrow> I s \<Longrightarrow> \<exists>r s'. m s = Some (r, s')"
  by (auto simp: returns_on_def)

lemma returns_bindP:
  assumes "returns_on I m" and "\<And>a. returns_on I (f a)"
  shows "returns_on I (bindP m f)"
proof (rule returns_onI)
  show "keeps I (bindP m f)" using assms by (intro keeps_bindP) (simp_all add: returns_on_def)
  fix s assume "I s"
  with assms(1) obtain r t where m: "m s = Some (r, t)" "I t"
    by (metis returns_onD returns_on_def keepsD)
  then show "\<exists>r s'. bindP m f s = Some (r, s')"
    using returns_onD [OF assms(2)] by (cases r) auto
qed

lemma returns_ret: "returns_on I (ret a)"
  by (auto simp: returns_on_def)

lemma returns_panic: "returns_on I (panic p)"
  by (auto simp: returns_on_def)

lemma returns_liftO: "returns_on I (liftO r)"
  by (auto simp: returns_on_def)

lemma returns_readP: "returns_on I (readP f)"
  by (auto simp: returns_on_def)

lemma returns_if: "returns_on I a \<Longrightarrow> returns_on I b \<Longrightarrow> returns_on I (if P then a else b)"
  by simp

lemma returns_option:
  "returns_on I a \<Longrightarrow> (\<And>y. returns_on I (f y)) \<Longrightarrow> returns_on I (case x of None \<Rightarrow> a | Some y \<Rightarrow> f y)"
  by (cases x) simp_all

lemma returns_sum:
  "(\<And>y. returns_on I (f y)) \<Longrightarrow> (\<And>y. returns_on I (g y)) \<Longrightarrow>
   returns_on I (case x of Inl y \<Rightarrow> f y | Inr y \<Rightarrow> g y)"
  by (cases x) simp_all

lemma returns_prod: "(\<And>a b. returns_on I (f a b)) \<Longrightarrow> returns_on I (case x of (a, b) \<Rightarrow> f a b)"
  by (cases x) simp

lemma returns_let: "returns_on I (f a) \<Longrightarrow> returns_on I (Let a f)"
  by simp

lemmas returns_intros = returns_bindP returns_if returns_option returns_sum returns_prod returns_let
  returns_ret returns_panic returns_liftO returns_readP

section \<open>Machine integers, durations and time\<close>

text \<open>
  Go's \<open>int\<close> and \<open>time.Duration\<close> are signed 64-bit integers: arithmetic on the word wraps,
  comparisons go through \<^const>\<open>sint\<close>. A point in time is an integer number of nanoseconds;
  the difference of two points saturates at the ends of the duration range, as \<open>Time.Sub\<close>
  and \<open>time.Since\<close> do.
\<close>

type_synonym i64 = "64 word"
type_synonym duration = i64
type_synonym time = int

definition second :: duration where "second = 1000000000"
definition minute :: duration where "minute = 60000000000"
definition hour :: duration where "hour = 3600000000000"

definition time_sub :: "time \<Rightarrow> time \<Rightarrow> duration" where
  "time_sub t u = word_of_int (max (- (2 ^ 63)) (min (2 ^ 63 - 1) (t - u)))"

text \<open>The value of \<open>Duration.Seconds()\<close>, without the rounding to a float.\<close>

definition seconds :: "duration \<Rightarrow> rat" where
  "seconds d = Fract (sint d) 1000000000"

lemma sint_word_of_int_64:
  "- (2 ^ 63) \<le> k \<Longrightarrow> k < 2 ^ 63 \<Longrightarrow> sint (word_of_int k :: i64) = k"
  by (simp add: sint_sbintrunc' signed_take_bit_int_eq_self)

lemma sint_range_64: "- (2 ^ 63) \<le> sint (w :: i64)" "sint (w :: i64) < 2 ^ 63"
  using sint_greater_eq [of w] sint_less [of w] by simp_all

lemma sint_second [simp]: "sint second = 1000000000"
  by (simp add: second_def)

lemma sint_time_sub:
  "sint (time_sub t u) = max (- (2 ^ 63)) (min (2 ^ 63 - 1) (t - u))"
  unfolding time_sub_def by (rule sint_word_of_int_64) auto

lemma sint_eq_iff_64: "sint (a :: i64) = sint b \<longleftrightarrow> a = b"
  by (auto dest: arg_cong [where f = "word_of_int :: int \<Rightarrow> i64"])

lemma sint_mult_64:
  assumes "- (2 ^ 63) \<le> sint a * sint b" and "sint a * sint b < 2 ^ 63"
  shows "sint (a * b :: i64) = sint a * sint b"
proof -
  have "a * b = word_of_int (sint a * sint b)" by simp
  then show ?thesis using assms by (metis sint_word_of_int_64)
qed

lemma sint_add_64:
  assumes "- (2 ^ 63) \<le> sint a + sint b" and "sint a + sint b < 2 ^ 63"
  shows "sint (a + b :: i64) = sint a + sint b"
proof -
  have "a + b = word_of_int (sint a + sint b)" by simp
  then show ?thesis using assms by (metis sint_word_of_int_64)
qed

section \<open>Slices, contexts, errors\<close>

text \<open>
  A slice is either nil or a list; ranging over nil visits nothing, but \<open>reflect.DeepEqual\<close>
  tells nil and empty apart.
\<close>

type_synonym 'a slice = "'a list option"

definition elems :: "'a slice \<Rightarrow> 'a list" where
  "elems xs = (case xs of None \<Rightarrow> [] | Some ys \<Rightarrow> ys)"

lemma elems_simps [simp]: "elems None = []" "elems (Some ys) = ys"
  by (simp_all add: elems_def)

text \<open>
  A context is known by its deadline: \<open>None\<close> for \<open>context.Background()\<close> and
  \<open>context.TODO()\<close>. The program cancels a context only when the function that created it
  returns, so the deadline alone decides whether it is done.
\<close>

type_synonym ctx = "time option"

definition background :: ctx where "background = None"

definition withTimeout :: "ctx \<Rightarrow> time \<Rightarrow> duration \<Rightarrow> ctx" where
  "withTimeout parent now d =
     (case parent of None \<Rightarrow> Some (now + sint d) | Some t \<Rightarrow> Some (min t (now + sint d)))"

definition ctxDone :: "ctx \<Rightarrow> time \<Rightarrow> bool" where
  "ctxDone c now = (case c of None \<Rightarrow> False | Some t \<Rightarrow> t \<le> now)"

lemma ctxDone_withTimeout:
  "ctxDone (withTimeout p t0 d) now \<longleftrightarrow> t0 + sint d \<le> now \<or> ctxDone p now"
  by (auto simp: ctxDone_def withTimeout_def split: option.splits)

datatype api_error = NotFound | AlreadyExists | Conflict | OtherApiError string

datatype num_error = ErrSyntax | ErrRange

datatype go_error =
    ApiErr api_error
  | NewErr string
  | NumErr num_error
  | CtxErr

definition isNotFound :: "api_error \<Rightarrow> bool" where
  "isNotFound e \<longleftrightarrow> e = NotFound"

end
