(* ===== verification/GoStrings.thy ===== *)
theory GoStrings
  imports Prelude
begin

text \<open>
  The part of Go's packages \<open>strings\<close> and \<open>strconv\<close> that the program calls: Contains,
  HasPrefix, TrimPrefix, Split and Join with a one-byte separator, Atoi and Itoa. A Go string is
  a sequence of bytes, as Isabelle's \<^typ>\<open>string\<close> is.
\<close>

section \<open>Searching\<close>

fun contains :: "string \<Rightarrow> string \<Rightarrow> bool" where
  "contains [] sub \<longleftrightarrow> sub = []"
| "contains (c # cs) sub \<longleftrightarrow> prefix sub (c # cs) \<or> contains cs sub"

lemma contains_iff_sublist: "contains s sub \<longleftrightarrow> sublist sub s"
  by (induction s) (auto simp: sublist_Cons_right)

definition hasPrefix :: "string \<Rightarrow> string \<Rightarrow> bool" where
  [go_defs]: "hasPrefix s p \<longleftrightarrow> prefix p s"

definition trimPrefix :: "string \<Rightarrow> string \<Rightarrow> string" where
  [go_defs]: "trimPrefix s p = (if prefix p s then drop (length p) s else s)"

section \<open>Split and Join\<close>

fun split_on :: "char \<Rightarrow> string \<Rightarrow> string list" where
  "split_on c [] = [[]]"
| "split_on c (x # xs) =
     (if x = c then [] # split_on c xs
      else case split_on c xs of [] \<Rightarrow> [[x]] | p # ps \<Rightarrow> (x # p) # ps)"

fun join_with :: "string \<Rightarrow> string list \<Rightarrow> string" where
  "join_with sep [] = []"
| "join_with sep [p] = p"
| "join_with sep (p # q # ps) = p @ sep @ join_with sep (q # ps)"

lemma split_on_not_Nil [simp]: "split_on c s \<noteq> []"
  by (induction s) (auto split: list.splits)

lemma join_with_Cons: "ps \<noteq> [] \<Longrightarrow> join_with sep (p # ps) = p @ sep @ join_with sep ps"
  by (cases ps) auto

lemma join_split: "join_with [c] (split_on c s) = s"
proof (induction s)
  case Nil
  then show ?case by simp
next
  case (Cons x xs)
  obtain p ps where ps: "split_on c xs = p # ps"
    by (cases "split_on c xs") auto
  with Cons show ?case by (cases ps) (auto simp: join_with_Cons)
qed

lemma split_on_no_sep: "p \<in> set (split_on c s) \<Longrightarrow> c \<notin> set p"
  by (induction s arbitrary: p) (auto split: if_splits list.splits)

lemma split_on_free: "c \<notin> set s \<Longrightarrow> split_on c s = [s]"
  by (induction s) auto

lemma split_on_append_sep: "split_on c (s @ c # t) = split_on c s @ split_on c t"
  by (induction s) (auto split: list.splits simp: append_eq_Cons_conv)

lemma join_with_snoc: "ps \<noteq> [] \<Longrightarrow> join_with sep (ps @ [p]) = join_with sep ps @ sep @ p"
proof (induction ps)
  case (Cons a ps)
  then show ?case by (cases "ps = []") (simp_all add: join_with_Cons)
qed simp

text \<open>
  The last part, and what stands before it: a string is either free of the separator, or some
  text, the separator and the last part.
\<close>

lemma split_on_last:
  obtains (free) "c \<notin> set s" and "split_on c s = [s]"
  | (sep) b l where "s = b @ c # l" and "c \<notin> set l" and "split_on c s = split_on c b @ [l]"
proof (cases "c \<in> set s")
  case True
  then obtain b l where "s = b @ c # l" "c \<notin> set l"
    by (metis split_list_last)
  then show ?thesis by (intro sep) (auto simp: split_on_append_sep split_on_free)
next
  case False
  then show ?thesis by (intro free) (auto simp: split_on_free)
qed

section \<open>Decimal numbers\<close>

definition digit_char :: "nat \<Rightarrow> char" where
  "digit_char d = char_of (48 + d)"

definition digit_val :: "char \<Rightarrow> nat option" where
  "digit_val c = (let k = of_char c :: nat in if 48 \<le> k \<and> k \<le> 57 then Some (k - 48) else None)"

lemma digit_val_digit_char [simp]: "d < 10 \<Longrightarrow> digit_val (digit_char d) = Some d"
  by (simp add: digit_val_def digit_char_def Let_def)

lemma digit_chars [simp]:
  "digit_char 0 = CHR ''0''" "digit_char (Suc 0) = CHR ''1''" "digit_char 1 = CHR ''1''"
  "digit_char 2 = CHR ''2''" "digit_char 3 = CHR ''3''" "digit_char 4 = CHR ''4''"
  "digit_char 5 = CHR ''5''" "digit_char 6 = CHR ''6''" "digit_char 7 = CHR ''7''"
  "digit_char 8 = CHR ''8''" "digit_char 9 = CHR ''9''"
  by code_simp+

lemma digit_val_less: "digit_val c = Some d \<Longrightarrow> d < 10"
  by (auto simp: digit_val_def Let_def split: if_splits)

lemma digit_char_neq: "d < 10 \<Longrightarrow> digit_val c = None \<Longrightarrow> digit_char d \<noteq> c"
  using digit_val_digit_char by fastforce

lemma digit_char_neq_sign [simp]:
  "d < 10 \<Longrightarrow> digit_char d \<noteq> CHR ''-''"
  "d < 10 \<Longrightarrow> digit_char d \<noteq> CHR ''+''"
  by (simp_all add: digit_char_neq digit_val_def)

fun show_nat :: "nat \<Rightarrow> string" where
  "show_nat n = (if n < 10 then [digit_char n] else show_nat (n div 10) @ [digit_char (n mod 10)])"

declare show_nat.simps [simp del]

lemma show_nat_not_Nil [simp]: "show_nat n \<noteq> []"
  by (subst show_nat.simps) simp

lemma set_show_nat: "c \<in> set (show_nat n) \<Longrightarrow> \<exists>d<10. c = digit_char d"
proof (induction n rule: show_nat.induct)
  case (1 n)
  then have "n < 10 \<and> c = digit_char n \<or> \<not> n < 10 \<and> c \<in> set (show_nat (n div 10)) \<or> c = digit_char (n mod 10)"
    by (subst (asm) (2) show_nat.simps) (auto split: if_splits)
  moreover have "n mod 10 < 10" by simp
  ultimately show ?case using 1(1) by blast
qed

lemma show_nat_no_sign: "CHR ''-'' \<notin> set (show_nat n)" "CHR ''+'' \<notin> set (show_nat n)"
  using set_show_nat [of "CHR ''-''" n] set_show_nat [of "CHR ''+''" n] digit_char_neq_sign by metis+

definition itoa :: "i64 \<Rightarrow> string" where
  "itoa w = (if sint w < 0 then CHR ''-'' # show_nat (nat (- sint w)) else show_nat (nat (sint w)))"

lemma itoa_other_char: "digit_val c = None \<Longrightarrow> c \<noteq> CHR ''-'' \<Longrightarrow> c \<notin> set (itoa w)"
  using set_show_nat [of c] digit_char_neq [of _ c] by (auto simp: itoa_def)

lemma itoa_no_slash: "CHR ''/'' \<notin> set (itoa w)"
  by (rule itoa_other_char) (simp_all add: digit_val_def)

text \<open>
  \<open>strconv.ParseUint\<close> in base 10: digits from left to right, \<open>ErrSyntax\<close> at the first byte
  that is no digit, \<open>ErrRange\<close> as soon as the value leaves 64 bits.
\<close>

fun parse_digits :: "nat \<Rightarrow> string \<Rightarrow> num_error + nat" where
  "parse_digits n [] = Inr n"
| "parse_digits n (c # cs) =
     (case digit_val c of
        None \<Rightarrow> Inl ErrSyntax
      | Some d \<Rightarrow> if 2 ^ 64 \<le> 10 * n + d then Inl ErrRange else parse_digits (10 * n + d) cs)"

definition parse_uint :: "string \<Rightarrow> num_error + nat" where
  "parse_uint s = (if s = [] then Inl ErrSyntax else parse_digits 0 s)"

text \<open>\<open>strconv.Atoi\<close>: an optional sign, then digits, then the range of a signed word.\<close>

definition atoi :: "string \<Rightarrow> num_error + i64" where
  "atoi s =
     (let neg = prefix ''-'' s;
          body = (if neg \<or> prefix ''+'' s then tl s else s)
      in case parse_uint body of
           Inl e \<Rightarrow> Inl e
         | Inr n \<Rightarrow>
             if \<not> neg \<and> 2 ^ 63 \<le> n then Inl ErrRange
             else if neg \<and> 2 ^ 63 < n then Inl ErrRange
             else Inr (word_of_int (if neg then - int n else int n)))"

lemma parse_digits_append:
  "parse_digits n (xs @ ys) = (case parse_digits n xs of Inl e \<Rightarrow> Inl e | Inr m \<Rightarrow> parse_digits m ys)"
  by (induction n xs rule: parse_digits.induct) (auto split: option.splits)

lemma parse_digits_show_nat: "n < 2 ^ 64 \<Longrightarrow> parse_digits 0 (show_nat n) = Inr n"
proof (induction n rule: show_nat.induct)
  case (1 n)
  show ?case
  proof (cases "n < 10")
    case True
    then show ?thesis by (subst show_nat.simps) simp
  next
    case False
    with 1 have "parse_digits 0 (show_nat (n div 10)) = Inr (n div 10)" by simp
    with False 1(2) show ?thesis by (subst show_nat.simps) (simp add: parse_digits_append)
  qed
qed

lemma atoi_itoa: "atoi (itoa w) = Inr w"
proof -
  have r: "- (2 ^ 63) \<le> sint w" "sint w < 2 ^ 63" by (rule sint_range_64)+
  have head: "\<not> prefix ''-'' (show_nat n)" "\<not> prefix ''+'' (show_nat n)" for n
    using show_nat_no_sign [of n] by (auto simp: prefix_def)
  show ?thesis
  proof (cases "sint w < 0")
    case True
    with r have "nat (- sint w) \<le> 2 ^ 63" by simp
    with True r show ?thesis
      by (simp add: atoi_def itoa_def parse_uint_def parse_digits_show_nat Let_def)
  next
    case False
    with r have "nat (sint w) < 2 ^ 63" by simp
    with False r head show ?thesis
      by (simp add: atoi_def itoa_def parse_uint_def parse_digits_show_nat Let_def)
  qed
qed

end
