(* ===== verification/SecretNames.thy ===== *)
theory SecretNames
  imports GoStrings
begin

text \<open>
  \<open>utils/strings.go\<close>: the \<open>-vX\<close> suffix of secret names. \<open>ChangeSecretName\<close> gives a TLS entry
  a new secret name, so that cert-manager issues a new certificate; what its caller needs is that
  it never fails and never returns the name it was given. The locale \<open>secret_namer\<close> is that
  contract. A secret name read as (parts before the suffix, version number) is the specification
  that the string manipulation refines.
\<close>

section \<open>The operations\<close>

definition isStrHasVxSuffix :: "string \<Rightarrow> bool" where
  "isStrHasVxSuffix str =
     (let strParts = split_on CHR ''-'' str;
          lastPart = strParts ! (length strParts - 1)
      in if hasPrefix lastPart ''v''
         then (case atoi (drop 1 lastPart) of Inl e \<Rightarrow> False | Inr n \<Rightarrow> True)
         else False)"

definition AddVxSuffixToStr :: "string \<Rightarrow> string" where
  "AddVxSuffixToStr str = str @ ''-v1''"

definition IncVxSuffixToStr :: "string \<Rightarrow> go_error + string" where
  "IncVxSuffixToStr str =
     (let strParts = split_on CHR ''-'' str;
          strPartsV = trimPrefix (strParts ! (length strParts - 1)) ''v''
      in case atoi strPartsV of
           Inl e \<Rightarrow> Inl (NumErr e)
         | Inr strPartsVInt \<Rightarrow>
             Inr (join_with ''-''
                    (strParts[length strParts - 1 := ''v'' @ itoa (strPartsVInt + 1)])))"

definition ChangeSecretName :: "string \<Rightarrow> go_error + string" where
  "ChangeSecretName secretName =
     (if \<not> isStrHasVxSuffix secretName then Inr (AddVxSuffixToStr secretName)
      else case IncVxSuffixToStr secretName of
             Inl e \<Rightarrow> Inl e
           | Inr newSecretName \<Rightarrow> Inr newSecretName)"

section \<open>The contract of a name changer\<close>

locale secret_namer =
  fixes change :: "string \<Rightarrow> go_error + string"
  assumes change_succeeds: "\<exists>t. change s = Inr t"
    and change_fresh: "change s = Inr t \<Longrightarrow> t \<noteq> s"
begin

lemma change_cases:
  obtains t where "change s = Inr t" and "t \<noteq> s"
  using change_succeeds change_fresh by blast

lemma change_not_error: "change s \<noteq> Inl e"
  using change_succeeds [of s] by auto

end

section \<open>Suffixed names\<close>

text \<open>The version of a name, if its last part is \<open>v\<close> and a number.\<close>

definition part_version :: "string \<Rightarrow> i64 option" where
  "part_version p =
     (if prefix ''v'' p then (case atoi (drop 1 p) of Inl e \<Rightarrow> None | Inr n \<Rightarrow> Some n) else None)"

lemma nth_last_part: "split_on c s ! (length (split_on c s) - Suc 0) = last (split_on c s)"
  by (simp add: last_conv_nth)

lemma update_last: "xs \<noteq> [] \<Longrightarrow> xs[length xs - Suc 0 := y] = butlast xs @ [y]"
  by (cases xs rule: rev_cases) simp_all

lemma suffix_iff: "isStrHasVxSuffix s \<longleftrightarrow> part_version (last (split_on CHR ''-'' s)) \<noteq> None"
  by (auto simp: isStrHasVxSuffix_def part_version_def nth_last_part Let_def go_defs
        split: sum.splits)

lemma IncVx_suffixed:
  assumes "part_version (last (split_on CHR ''-'' s)) = Some n"
  shows "IncVxSuffixToStr s =
    Inr (join_with ''-'' (butlast (split_on CHR ''-'' s) @ [''v'' @ itoa (n + 1)]))"
  using assms
  by (auto simp: IncVxSuffixToStr_def part_version_def nth_last_part update_last Let_def go_defs
        split: if_splits sum.splits)

lemma ChangeSecretName_plain:
  "part_version (last (split_on CHR ''-'' s)) = None \<Longrightarrow> ChangeSecretName s = Inr (s @ ''-v1'')"
  by (simp add: ChangeSecretName_def suffix_iff AddVxSuffixToStr_def)

lemma ChangeSecretName_suffixed:
  "part_version (last (split_on CHR ''-'' s)) = Some n \<Longrightarrow>
   ChangeSecretName s =
     Inr (join_with ''-'' (butlast (split_on CHR ''-'' s) @ [''v'' @ itoa (n + 1)]))"
  by (simp add: ChangeSecretName_def suffix_iff IncVx_suffixed)

lemma ChangeSecretName_cases:
  obtains (plain) "part_version (last (split_on CHR ''-'' s)) = None"
      and "ChangeSecretName s = Inr (s @ ''-v1'')"
  | (suffixed) n where "part_version (last (split_on CHR ''-'' s)) = Some n"
      and "ChangeSecretName s =
             Inr (join_with ''-'' (butlast (split_on CHR ''-'' s) @ [''v'' @ itoa (n + 1)]))"
  using ChangeSecretName_plain ChangeSecretName_suffixed by (meson option.exhaust)

lemma join_with_append_inj:
  "join_with sep (ps @ [p]) = join_with sep (ps @ [q]) \<longleftrightarrow> p = q"
  by (cases "ps = []") (simp_all add: join_with_snoc)

lemma part_version_itoa: "part_version (''v'' @ itoa n) = Some n"
  by (simp add: part_version_def atoi_itoa)

lemma suffixed_name_fresh:
  assumes "part_version (last (split_on c s)) = Some n"
  shows "join_with [c] (butlast (split_on c s) @ [''v'' @ itoa (n + 1)]) \<noteq> s"
proof
  let ?ps = "split_on c s"
  assume eq: "join_with [c] (butlast ?ps @ [''v'' @ itoa (n + 1)]) = s"
  have "join_with [c] (butlast ?ps @ [last ?ps]) = s" by (simp add: join_split)
  with eq have "''v'' @ itoa (n + 1) = last ?ps" by (metis join_with_append_inj)
  with assms part_version_itoa [of "n + 1"] show False by simp
qed

interpretation secret: secret_namer ChangeSecretName
proof
  fix s t
  show "\<exists>t. ChangeSecretName s = Inr t"
    by (cases s rule: ChangeSecretName_cases) auto
  show "t \<noteq> s" if "ChangeSecretName s = Inr t"
    by (cases s rule: ChangeSecretName_cases) (use that suffixed_name_fresh in auto)
qed

section \<open>Names as versions\<close>

text \<open>The specification: a name is its parts before the suffix and an optional version number.\<close>

definition name_view :: "string \<Rightarrow> string list \<times> int option" where
  "name_view s =
     (let ps = split_on CHR ''-'' s
      in case part_version (last ps) of
           None \<Rightarrow> (ps, None)
         | Some n \<Rightarrow> (butlast ps, Some (sint n)))"

fun bump :: "string list \<times> int option \<Rightarrow> string list \<times> int option" where
  "bump (ps, None) = (ps, Some 1)"
| "bump (ps, Some n) = (ps, Some (n + 1))"

lemma parse_uint_bound: "parse_uint s = Inr n \<Longrightarrow> n < 2 ^ 64"
proof -
  have "parse_digits m s = Inr n \<Longrightarrow> m < 2 ^ 64 \<Longrightarrow> n < 2 ^ 64" for m
    by (induction m s rule: parse_digits.induct) (auto split: option.splits if_splits)
  then show "parse_uint s = Inr n \<Longrightarrow> n < 2 ^ 64"
    by (auto simp: parse_uint_def split: if_splits)
qed

lemma atoi_unsigned:
  assumes "CHR ''-'' \<notin> set s" and "atoi s = Inr n"
  shows "0 \<le> sint n"
proof -
  have "\<not> prefix ''-'' s" using assms(1) by (auto simp: prefix_def)
  with assms(2) obtain m where "n = word_of_int (int m)" and "m < 2 ^ 63"
    by (auto simp: atoi_def Let_def split: sum.splits if_splits)
  then show ?thesis using sint_word_of_int_64 [of "int m"] by simp
qed

lemma part_version_nonneg:
  assumes "part_version (last (split_on CHR ''-'' s)) = Some n"
  shows "0 \<le> sint n"
proof -
  have "CHR ''-'' \<notin> set (last (split_on CHR ''-'' s))"
    by (rule split_on_no_sep) (rule last_in_set, simp)
  then have "CHR ''-'' \<notin> set (drop 1 (last (split_on CHR ''-'' s)))"
    using in_set_dropD by metis
  with assms show ?thesis
    by (auto simp: part_version_def split: if_splits sum.splits intro: atoi_unsigned)
qed

lemma split_join:
  "ps \<noteq> [] \<Longrightarrow> \<forall>p \<in> set ps. c \<notin> set p \<Longrightarrow> split_on c (join_with [c] ps) = ps"
proof (induction ps)
  case (Cons p ps)
  then show ?case
    by (cases "ps = []") (simp_all add: join_with_Cons split_on_append_sep split_on_free)
qed simp

lemma itoa_nonneg: "0 \<le> sint n \<Longrightarrow> itoa n = show_nat (nat (sint n))"
  by (simp add: itoa_def)

lemma name_view_suffixed:
  assumes "\<forall>p \<in> set ps. CHR ''-'' \<notin> set p" and "0 \<le> sint n"
  shows "name_view (join_with ''-'' (ps @ [''v'' @ itoa n])) = (ps, Some (sint n))"
proof -
  have "CHR ''-'' \<notin> set (''v'' @ itoa n)"
    using assms(2) show_nat_no_sign by (simp add: itoa_nonneg)
  with assms(1) have "split_on CHR ''-'' (join_with ''-'' (ps @ [''v'' @ itoa n])) = ps @ [''v'' @ itoa n]"
    by (intro split_join) auto
  then show ?thesis
    using part_version_itoa [of n] by (simp add: name_view_def)
qed

lemma itoa_1: "itoa 1 = ''1''"
  by (simp add: itoa_def show_nat.simps)

lemma sint_succ: "sint (n :: i64) \<noteq> 2 ^ 63 - 1 \<Longrightarrow> sint (n + 1) = sint n + 1"
  using sint_range_64 [of n] by (subst sint_add_64) auto

lemma name_view_change:
  assumes "snd (name_view s) \<noteq> Some (2 ^ 63 - 1)" and "ChangeSecretName s = Inr t"
  shows "name_view t = bump (name_view s)"
proof (cases s rule: ChangeSecretName_cases)
  case plain
  let ?ps = "split_on CHR ''-'' s"
  have "t = join_with ''-'' (?ps @ [''v'' @ itoa 1])"
    using plain(2) assms(2) by (simp add: join_with_snoc join_split itoa_1)
  then have "name_view t = (?ps, Some 1)"
    using name_view_suffixed [of ?ps 1] split_on_no_sep by fastforce
  then show ?thesis using plain(1) by (simp add: name_view_def)
next
  case (suffixed n)
  let ?ps = "butlast (split_on CHR ''-'' s)"
  have free: "\<forall>p \<in> set ?ps. CHR ''-'' \<notin> set p"
    by (auto dest: in_set_butlastD split_on_no_sep)
  have n: "sint (n + 1) = sint n + 1"
    using suffixed(1) assms(1) by (intro sint_succ) (auto simp: name_view_def)
  then have "name_view t = (?ps, Some (sint n + 1))"
    using suffixed(2) assms(2) part_version_nonneg [OF suffixed(1)]
      name_view_suffixed [OF free, of "n + 1"] by simp
  then show ?thesis using suffixed(1) by (simp add: name_view_def)
qed

text \<open>Changing a name again and again, as one audit run after another does.\<close>

fun rotations :: "nat \<Rightarrow> string \<Rightarrow> go_error + string" where
  "rotations 0 s = Inr s"
| "rotations (Suc k) s = (case rotations k s of Inl e \<Rightarrow> Inl e | Inr t \<Rightarrow> ChangeSecretName t)"

lemma rotate_version:
  assumes "k < 2 ^ 63 - 1"
  shows "ChangeSecretName (s @ ''-v'' @ show_nat k) = Inr (s @ ''-v'' @ show_nat (Suc k))"
proof -
  let ?w = "word_of_int (int k) :: i64"
  have w: "sint ?w = int k" using assms by (intro sint_word_of_int_64) auto
  with assms have w1: "sint (?w + 1) = int (Suc k)" by (subst sint_succ) auto
  have "split_on CHR ''-'' (s @ ''-v'' @ show_nat k) = split_on CHR ''-'' s @ [''v'' @ show_nat k]"
    using split_on_append_sep [of "CHR ''-''" s "''v'' @ show_nat k"] show_nat_no_sign [of k]
    by (simp add: split_on_free)
  moreover have "part_version (''v'' @ show_nat k) = Some ?w"
    using part_version_itoa [of ?w] w by (simp add: itoa_nonneg)
  moreover have "itoa (?w + 1) = show_nat (Suc k)"
    using itoa_nonneg [of "?w + 1"] unfolding w1 by (simp only: nat_int of_nat_0_le_iff)
  ultimately show ?thesis
    by (subst ChangeSecretName_suffixed) (simp_all add: join_with_snoc join_split)
qed

lemma rotations_plain:
  assumes "part_version (last (split_on CHR ''-'' s)) = None" and "Suc k < 2 ^ 63"
  shows "rotations (Suc k) s = Inr (s @ ''-v'' @ show_nat (Suc k))"
  using assms(2)
proof (induction k)
  case 0
  then show ?case by (simp add: ChangeSecretName_plain [OF assms(1)] show_nat.simps)
next
  case (Suc k)
  then have "rotations (Suc k) s = Inr (s @ ''-v'' @ show_nat (Suc k))" by simp
  then show ?case using Suc.prems rotate_version [of "Suc k" s] by simp
qed

lemma show_nat_inj: "show_nat m = show_nat n \<Longrightarrow> m < 2 ^ 64 \<Longrightarrow> n < 2 ^ 64 \<Longrightarrow> m = n"
  by (metis parse_digits_show_nat Inr_inject)

section \<open>Properties\<close>

text \<open>
  \<open>ChangeSecretName\<close> never reports an error and never returns the name it was given, so
  the TLS entry it rewrites always refers to another secret.
\<close>

lemma ChangeSecretName_gives_other_name:
  "\<exists>t. ChangeSecretName s = Inr t \<and> t \<noteq> s"
  by (rule secret.change_cases [of s]) blast

text \<open>
  C17. \<open>ChangeSecretName\<close> refines the step on versions: a name without a version gets
  version 1, a name of version n gets version n + 1 and keeps everything before the suffix,
  as long as the version is not the largest 64-bit integer.
\<close>

theorem ChangeSecretName_refines_bump:
  assumes "snd (name_view s) \<noteq> Some (2 ^ 63 - 1)"
  shows "map_sum id name_view (ChangeSecretName s) = Inr (bump (name_view s))"
  using assms name_view_change secret.change_succeeds [of s] by fastforce

theorem ChangeSecretName_refines_bump_witness:
  "map_sum id name_view (ChangeSecretName ''tls-v9'') = Inr ([''tls''], Some 10)"
proof -
  have v: "name_view ''tls-v9'' = ([''tls''], Some 9)"
    using name_view_suffixed [of "[''tls'']" 9] by (simp add: itoa_def show_nat.simps)
  then have "snd (name_view ''tls-v9'') \<noteq> Some (2 ^ 63 - 1)" by simp
  from ChangeSecretName_refines_bump [OF this] v show ?thesis by simp
qed

text \<open>
  Repeated rotation of an unversioned name counts the version up from 1, and no two of the
  first 2^63 - 1 names coincide: a certificate is never sought under a name used before.
\<close>

theorem ChangeSecretName_rotation:
  assumes "\<not> isStrHasVxSuffix s" and "0 < j" and "j < k" and "k < 2 ^ 63"
  shows "rotations k s = Inr (s @ ''-v'' @ show_nat k) \<and> rotations j s \<noteq> rotations k s"
proof -
  have plain: "part_version (last (split_on CHR ''-'' s)) = None"
    using assms(1) by (simp add: suffix_iff)
  have "rotations k s = Inr (s @ ''-v'' @ show_nat k)"
    using rotations_plain [OF plain, of "k - 1"] assms by simp
  moreover have "rotations j s = Inr (s @ ''-v'' @ show_nat j)"
    using rotations_plain [OF plain, of "j - 1"] assms by simp
  ultimately show ?thesis using show_nat_inj [of j k] assms by auto
qed

theorem ChangeSecretName_rotation_witness:
  "rotations 3 ''tls'' = Inr ''tls-v3'' \<and> rotations 2 ''tls'' \<noteq> rotations 3 ''tls''"
proof -
  have "\<not> isStrHasVxSuffix ''tls''" by (simp add: isStrHasVxSuffix_def go_defs)
  from ChangeSecretName_rotation [OF this, of 2 3] show ?thesis by (force simp: show_nat.simps)
qed

text \<open>
  At the largest 64-bit version the increment wraps: the new suffix is a negative number,
  which is no longer a suffix for the next call.
\<close>

theorem ChangeSecretName_wraps:
  "ChangeSecretName (s @ ''-v9223372036854775807'') = Inr (s @ ''-v-9223372036854775808'') \<and>
   ChangeSecretName (s @ ''-v-9223372036854775808'') = Inr (s @ ''-v-9223372036854775808-v1'')"
proof
  let ?m = "9223372036854775807 :: i64"
  have parts: "split_on CHR ''-'' (s @ CHR ''-'' # p) = split_on CHR ''-'' s @ split_on CHR ''-'' p" for p
    by (rule split_on_append_sep)
  have i: "itoa ?m = ''9223372036854775807''" "itoa (?m + 1) = ''-9223372036854775808''"
    by (simp_all add: itoa_def show_nat.simps)
  have "part_version (last (split_on CHR ''-'' (s @ ''-v9223372036854775807''))) = Some ?m"
    using parts [of "''v9223372036854775807''"] part_version_itoa [of ?m] i(1) by simp
  from ChangeSecretName_suffixed [OF this] i(2) parts [of "''v9223372036854775807''"]
  show "ChangeSecretName (s @ ''-v9223372036854775807'') = Inr (s @ ''-v-9223372036854775808'')"
    by (simp add: join_with_snoc join_split)
  have "part_version (last (split_on CHR ''-'' (s @ ''-v-9223372036854775808''))) = None"
    using parts [of "''v-9223372036854775808''"] by (simp add: part_version_def)
  from ChangeSecretName_plain [OF this]
  show "ChangeSecretName (s @ ''-v-9223372036854775808'') = Inr (s @ ''-v-9223372036854775808-v1'')"
    by simp
qed

end
