(* ===== verification/NamedMutexSeq.thy ===== *)
theory NamedMutexSeq
  imports Prelude
begin

text \<open>
  \<open>utils/namedmutex.go\<close>, each method run without interruption. A lock is a channel of capacity
  one, whose token is present while the lock is free, and a flag. A method that would wait for
  ever (a receive from the empty channel, a send into the full one) is \<open>None\<close>.

  The locale \<open>named_lock\<close> is the contract the ingress watchers rely on; \<open>blocking_lock\<close>
  adds the blocking operation. The interleaved behaviour is in \<open>NamedMutexConc\<close>.
\<close>

section \<open>State and operations\<close>

record nlock =
  token :: bool
  locked :: bool

type_synonym nmutex = "string \<rightharpoonup> nlock"

definition NewNamedMutex :: nmutex where
  "NewNamedMutex = Map.empty"

definition new_lock :: nlock where
  "new_lock = \<lparr>token = True, locked = False\<rparr>"

definition Lock :: "string \<Rightarrow> nmutex \<Rightarrow> nmutex option" where
  "Lock name n =
     (let n1 = (case n name of None \<Rightarrow> n(name \<mapsto> new_lock) | Some lk \<Rightarrow> n);
          lk = (case n name of None \<Rightarrow> new_lock | Some lk \<Rightarrow> lk)
      in if token lk then Some (n1(name \<mapsto> lk\<lparr>token := False, locked := True\<rparr>)) else None)"

definition Unlock :: "string \<Rightarrow> nmutex \<Rightarrow> nmutex option" where
  "Unlock name n =
     (case n name of
        None \<Rightarrow> Some n
      | Some lk \<Rightarrow>
          if locked lk
          then (if token lk then None
                else Some (n(name \<mapsto> lk\<lparr>locked := False, token := True\<rparr>)))
          else Some n)"

definition TryLock :: "string \<Rightarrow> nmutex \<Rightarrow> bool \<times> nmutex" where
  "TryLock name n =
     (case n name of
        None \<Rightarrow> (True, n(name \<mapsto> new_lock\<lparr>token := False, locked := True\<rparr>))
      | Some lk \<Rightarrow>
          if locked lk then (False, n)
          else if token lk then (True, n(name \<mapsto> lk\<lparr>token := False, locked := True\<rparr>))
          else (False, n))"

definition IsLocked :: "string \<Rightarrow> nmutex \<Rightarrow> bool" where
  "IsLocked name n = (case n name of None \<Rightarrow> False | Some lk \<Rightarrow> locked lk)"

section \<open>Contracts\<close>

locale named_lock =
  fixes new :: 'm
    and acquire :: "string \<Rightarrow> 'm \<Rightarrow> bool \<times> 'm"
    and release :: "string \<Rightarrow> 'm \<Rightarrow> 'm option"
    and is_locked :: "string \<Rightarrow> 'm \<Rightarrow> bool"
    and inv :: "'m \<Rightarrow> bool"
    and held :: "'m \<Rightarrow> string set"
  assumes inv_new: "inv new"
    and held_new: "held new = {}"
    and acquire_fst: "inv m \<Longrightarrow> fst (acquire k m) \<longleftrightarrow> k \<notin> held m"
    and acquire_held: "inv m \<Longrightarrow> held (snd (acquire k m)) = insert k (held m)"
    and acquire_inv: "inv m \<Longrightarrow> inv (snd (acquire k m))"
    and acquire_fail: "inv m \<Longrightarrow> k \<in> held m \<Longrightarrow> snd (acquire k m) = m"
    and release_works: "inv m \<Longrightarrow> \<exists>m'. release k m = Some m' \<and> inv m' \<and> held m' = held m - {k}"
    and is_locked: "is_locked k m \<longleftrightarrow> k \<in> held m"
begin

lemma acquire_free:
  assumes "inv m" and "k \<notin> held m"
  obtains m' where "acquire k m = (True, m')" and "inv m'" and "held m' = insert k (held m)"
  using assms acquire_fst [of m k] acquire_held [of m k] acquire_inv [of m k] by (cases "acquire k m") auto

lemma acquire_taken: "inv m \<Longrightarrow> k \<in> held m \<Longrightarrow> acquire k m = (False, m)"
  using acquire_fst [of m k] acquire_fail [of m k] by (cases "acquire k m") auto

text \<open>A section guarded by \<open>acquire\<close> and \<open>release\<close> leaves the set of held names as it was.\<close>

lemma bracket:
  assumes "inv m" and "k \<notin> held m"
  obtains m1 m2 where "acquire k m = (True, m1)" and "inv m1" and "held m1 = insert k (held m)"
    and "release k m1 = Some m2" and "inv m2" and "held m2 = held m"
proof -
  obtain m1 where m1: "acquire k m = (True, m1)" "inv m1" "held m1 = insert k (held m)"
    using assms by (rule acquire_free)
  moreover obtain m2 where "release k m1 = Some m2" "inv m2" "held m2 = held m1 - {k}"
    using release_works [OF m1(2)] by blast
  ultimately show thesis using assms(2) by (intro that [of m1 m2]) auto
qed

end

locale blocking_lock = named_lock +
  fixes lock :: "string \<Rightarrow> 'a \<Rightarrow> 'a option"
  assumes lock_free:
      "inv m \<Longrightarrow> k \<notin> held m \<Longrightarrow> \<exists>m'. lock k m = Some m' \<and> inv m' \<and> held m' = insert k (held m)"
    and lock_taken: "inv m \<Longrightarrow> k \<in> held m \<Longrightarrow> lock k m = None"
begin

lemma lock_agrees_with_acquire: "inv m \<Longrightarrow> (lock k m \<noteq> None) = fst (acquire k m)"
  using lock_free [of m k] lock_taken [of m k] acquire_fst [of m k] by fastforce

end

section \<open>The implementation meets the contract\<close>

definition nm_inv :: "nmutex \<Rightarrow> bool" where
  "nm_inv n \<longleftrightarrow> (\<forall>name lk. n name = Some lk \<longrightarrow> token lk = (\<not> locked lk))"

definition nm_held :: "nmutex \<Rightarrow> string set" where
  "nm_held n = {name. IsLocked name n}"

lemmas nm_defs = nm_inv_def nm_held_def IsLocked_def TryLock_def Unlock_def Lock_def
  NewNamedMutex_def new_lock_def

interpretation nm: blocking_lock NewNamedMutex TryLock Unlock IsLocked nm_inv nm_held Lock
proof
  fix m k
  show "nm_inv NewNamedMutex" and "nm_held NewNamedMutex = {}"
    by (auto simp: nm_defs)
  show "IsLocked k m \<longleftrightarrow> k \<in> nm_held m" by (simp add: nm_held_def)
  assume inv: "nm_inv m"
  show "fst (TryLock k m) \<longleftrightarrow> k \<notin> nm_held m"
    using inv by (auto simp: nm_defs split: option.splits)
  show "nm_held (snd (TryLock k m)) = insert k (nm_held m)"
    using inv by (auto simp: nm_defs split: option.splits if_splits)
  show "nm_inv (snd (TryLock k m))"
    using inv by (auto simp: nm_defs split: option.splits)
  show "k \<in> nm_held m \<Longrightarrow> snd (TryLock k m) = m"
    by (auto simp: nm_defs split: option.splits)
  show "\<exists>m'. Unlock k m = Some m' \<and> nm_inv m' \<and> nm_held m' = nm_held m - {k}"
    using inv by (auto simp: nm_defs split: option.splits if_splits)
  show "k \<notin> nm_held m \<Longrightarrow> \<exists>m'. Lock k m = Some m' \<and> nm_inv m' \<and> nm_held m' = insert k (nm_held m)"
    using inv by (auto simp: nm_defs Let_def split: option.splits if_splits)
  show "k \<in> nm_held m \<Longrightarrow> Lock k m = None"
    using inv by (auto simp: nm_defs Let_def split: option.splits)
qed

section \<open>Sequences of calls\<close>

text \<open>
  Any sequence of calls on a new mutex answers as a set of held names does; a call of
  \<open>Lock\<close> on a held name stops the sequence for ever.
\<close>

datatype mutex_call = CLock string | CUnlock string | CTryLock string | CIsLocked string

fun nm_call :: "mutex_call \<Rightarrow> nmutex \<Rightarrow> (bool \<times> nmutex) option" where
  "nm_call (CLock k) m = map_option (Pair True) (Lock k m)"
| "nm_call (CUnlock k) m = map_option (Pair True) (Unlock k m)"
| "nm_call (CTryLock k) m = Some (TryLock k m)"
| "nm_call (CIsLocked k) m = Some (IsLocked k m, m)"

fun set_call :: "mutex_call \<Rightarrow> string set \<Rightarrow> (bool \<times> string set) option" where
  "set_call (CLock k) S = (if k \<in> S then None else Some (True, insert k S))"
| "set_call (CUnlock k) S = Some (True, S - {k})"
| "set_call (CTryLock k) S = Some (k \<notin> S, insert k S)"
| "set_call (CIsLocked k) S = Some (k \<in> S, S)"

fun run_calls :: "('c \<Rightarrow> 's \<Rightarrow> (bool \<times> 's) option) \<Rightarrow> 'c list \<Rightarrow> 's \<Rightarrow> (bool list \<times> 's) option" where
  "run_calls step [] s = Some ([], s)"
| "run_calls step (c # cs) s =
     (case step c s of
        None \<Rightarrow> None
      | Some (b, s') \<Rightarrow> map_option (\<lambda>(bs, t). (b # bs, t)) (run_calls step cs s'))"

definition set_view :: "('b \<times> nmutex) option \<Rightarrow> ('b \<times> string set) option" where
  "set_view r = (case r of None \<Rightarrow> None | Some (b, m) \<Rightarrow> Some (b, nm_held m))"

lemma set_view_simps [simp]:
  "set_view None = None" "set_view (Some (b, m)) = Some (b, nm_held m)"
  by (simp_all add: set_view_def)

lemma nm_call_refines:
  assumes "nm_inv m"
  shows "set_view (nm_call c m) = set_call c (nm_held m)"
    and "nm_call c m = Some (b, m') \<Longrightarrow> nm_inv m'"
proof -
  have "set_view (nm_call c m) = set_call c (nm_held m) \<and>
        (\<forall>b m'. nm_call c m = Some (b, m') \<longrightarrow> nm_inv m')"
  proof (cases c)
    case (CLock k)
    show ?thesis
    proof (cases "k \<in> nm_held m")
      case True
      then show ?thesis using nm.lock_taken [OF assms] CLock by simp
    next
      case False
      obtain m1 where "Lock k m = Some m1" "nm_inv m1" "nm_held m1 = insert k (nm_held m)"
        using nm.lock_free [OF assms False] by blast
      with False CLock show ?thesis by simp
    qed
  next
    case (CUnlock k)
    obtain m1 where "Unlock k m = Some m1" "nm_inv m1" "nm_held m1 = nm_held m - {k}"
      using nm.release_works [OF assms] by blast
    with CUnlock show ?thesis by simp
  next
    case (CTryLock k)
    then show ?thesis
      using nm.acquire_fst [OF assms, of k] nm.acquire_held [OF assms, of k]
        nm.acquire_inv [OF assms, of k]
      by (cases "TryLock k m") auto
  next
    case (CIsLocked k)
    then show ?thesis using assms nm.is_locked [of k m] by simp
  qed
  then show "set_view (nm_call c m) = set_call c (nm_held m)"
    and "nm_call c m = Some (b, m') \<Longrightarrow> nm_inv m'" by blast+
qed

lemma run_calls_refines:
  "nm_inv m \<Longrightarrow> set_view (run_calls nm_call cs m) = run_calls set_call cs (nm_held m)"
proof (induction cs arbitrary: m)
  case Nil
  then show ?case by simp
next
  case (Cons c cs)
  note call = nm_call_refines [OF Cons.prems, of c]
  show ?case
  proof (cases "nm_call c m")
    case None
    then show ?thesis using call(1) by (simp flip: call(1))
  next
    case (Some r)
    obtain b m' where r: "r = (b, m')" by (cases r)
    from Cons.IH [OF call(2)] Some r
    have "run_calls set_call cs (nm_held m') = set_view (run_calls nm_call cs m')" by simp
    then show ?thesis
      using Some r by (cases "run_calls nm_call cs m'") (auto simp flip: call(1))
  qed
qed

section \<open>Properties\<close>

text \<open>
  Every sequence of \<open>Lock\<close>, \<open>Unlock\<close>, \<open>TryLock\<close> and \<open>IsLocked\<close> calls on a new
  mutex returns what the same sequence returns on a set of held names, and waits for ever exactly
  where that specification does.
\<close>

theorem NamedMutex_refines_set:
  "set_view (run_calls nm_call cs NewNamedMutex) = run_calls set_call cs {}"
  using run_calls_refines [OF nm.inv_new, of cs] by (simp add: nm.held_new)

end
