(* ===== verification/NamedMutexConc.thy ===== *)
theory NamedMutexConc
  imports NamedMutexSeq
begin

text \<open>
  \<open>utils/namedmutex.go\<close> under interleaving. A thread is a goroutine; each step is one atomic
  action of the source: taking or releasing \<open>n.mu\<close>, the work on the map in between, a channel
  receive or send, a read or write of the flag \<open>locked\<close>. The methods release \<open>n.mu\<close> before
  they touch the channel, so the interesting windows (the token taken but \<open>locked\<close> not yet set,
  \<open>locked\<close> cleared but the token not yet returned) are states of their own. Memory is taken to
  be sequentially consistent.

  \<open>rogue\<close> says whether goroutines may call \<open>Unlock\<close> on a name they do not hold. The
  program never does: each \<open>Unlock\<close> follows the goroutine's own successful \<open>TryLock\<close>.
\<close>

section \<open>Threads and steps\<close>

datatype pc =
    Idle
  | LockStart string | LockIn string | LockOut string | LockRecv string | LockMark string
  | TryStart string | TryIn string | TryFail string | TryOut string | TrySelect string
  | TryMark string
  | Held string
  | UnlockStart string | UnlockIn string | UnlockOut string bool | UnlockTest string
  | UnlockClear string | UnlockSend string
  | IsStart string | IsIn string | IsOut string bool | IsRead string | IsAnswer string bool

record msys =
  mu :: "nat option"
  locks :: nmutex
  pcs :: "nat \<Rightarrow> pc"

definition goto :: "nat \<Rightarrow> pc \<Rightarrow> msys \<Rightarrow> msys" where
  "goto i p s = s\<lparr>pcs := (pcs s)(i := p)\<rparr>"

definition ensure :: "string \<Rightarrow> nmutex \<Rightarrow> nmutex" where
  "ensure k m = (case m k of None \<Rightarrow> m(k \<mapsto> new_lock) | Some lk \<Rightarrow> m)"

inductive Lock_step :: "nat \<Rightarrow> msys \<Rightarrow> msys \<Rightarrow> bool" for i where
  lock_call: "pcs s i = Idle \<Longrightarrow> Lock_step i s (goto i (LockStart k) s)"
| lock_mu: "pcs s i = LockStart k \<Longrightarrow> mu s = None \<Longrightarrow>
    Lock_step i s (goto i (LockIn k) (s\<lparr>mu := Some i\<rparr>))"
| lock_ensure: "pcs s i = LockIn k \<Longrightarrow>
    Lock_step i s (goto i (LockOut k) (s\<lparr>locks := ensure k (locks s)\<rparr>))"
| lock_unmu: "pcs s i = LockOut k \<Longrightarrow> Lock_step i s (goto i (LockRecv k) (s\<lparr>mu := None\<rparr>))"
| lock_recv: "pcs s i = LockRecv k \<Longrightarrow> locks s k = Some lk \<Longrightarrow> token lk \<Longrightarrow>
    Lock_step i s (goto i (LockMark k) (s\<lparr>locks := (locks s)(k \<mapsto> lk\<lparr>token := False\<rparr>)\<rparr>))"
| lock_mark: "pcs s i = LockMark k \<Longrightarrow> locks s k = Some lk \<Longrightarrow>
    Lock_step i s (goto i (Held k) (s\<lparr>locks := (locks s)(k \<mapsto> lk\<lparr>locked := True\<rparr>)\<rparr>))"

inductive TryLock_step :: "nat \<Rightarrow> msys \<Rightarrow> msys \<Rightarrow> bool" for i where
  try_call: "pcs s i = Idle \<Longrightarrow> TryLock_step i s (goto i (TryStart k) s)"
| try_mu: "pcs s i = TryStart k \<Longrightarrow> mu s = None \<Longrightarrow>
    TryLock_step i s (goto i (TryIn k) (s\<lparr>mu := Some i\<rparr>))"
| try_new: "pcs s i = TryIn k \<Longrightarrow> locks s k = None \<Longrightarrow>
    TryLock_step i s (goto i (TryOut k) (s\<lparr>locks := (locks s)(k \<mapsto> new_lock)\<rparr>))"
| try_locked: "pcs s i = TryIn k \<Longrightarrow> locks s k = Some lk \<Longrightarrow> locked lk \<Longrightarrow>
    TryLock_step i s (goto i (TryFail k) s)"
| try_maybe: "pcs s i = TryIn k \<Longrightarrow> locks s k = Some lk \<Longrightarrow> \<not> locked lk \<Longrightarrow>
    TryLock_step i s (goto i (TryOut k) s)"
| try_false: "pcs s i = TryFail k \<Longrightarrow> TryLock_step i s (goto i Idle (s\<lparr>mu := None\<rparr>))"
| try_unmu: "pcs s i = TryOut k \<Longrightarrow> TryLock_step i s (goto i (TrySelect k) (s\<lparr>mu := None\<rparr>))"
| try_recv: "pcs s i = TrySelect k \<Longrightarrow> locks s k = Some lk \<Longrightarrow> token lk \<Longrightarrow>
    TryLock_step i s (goto i (TryMark k) (s\<lparr>locks := (locks s)(k \<mapsto> lk\<lparr>token := False\<rparr>)\<rparr>))"
| try_default: "pcs s i = TrySelect k \<Longrightarrow> locks s k = Some lk \<Longrightarrow> \<not> token lk \<Longrightarrow>
    TryLock_step i s (goto i Idle s)"
| try_mark: "pcs s i = TryMark k \<Longrightarrow> locks s k = Some lk \<Longrightarrow>
    TryLock_step i s (goto i (Held k) (s\<lparr>locks := (locks s)(k \<mapsto> lk\<lparr>locked := True\<rparr>)\<rparr>))"

inductive Unlock_step :: "bool \<Rightarrow> nat \<Rightarrow> msys \<Rightarrow> msys \<Rightarrow> bool" for rogue i where
  unlock_call: "pcs s i = Held k \<Longrightarrow> Unlock_step rogue i s (goto i (UnlockStart k) s)"
| unlock_rogue: "rogue \<Longrightarrow> pcs s i = Idle \<Longrightarrow> Unlock_step rogue i s (goto i (UnlockStart k) s)"
| unlock_mu: "pcs s i = UnlockStart k \<Longrightarrow> mu s = None \<Longrightarrow>
    Unlock_step rogue i s (goto i (UnlockIn k) (s\<lparr>mu := Some i\<rparr>))"
| unlock_get: "pcs s i = UnlockIn k \<Longrightarrow>
    Unlock_step rogue i s (goto i (UnlockOut k (locks s k \<noteq> None)) s)"
| unlock_unmu: "pcs s i = UnlockOut k True \<Longrightarrow>
    Unlock_step rogue i s (goto i (UnlockTest k) (s\<lparr>mu := None\<rparr>))"
| unlock_none: "pcs s i = UnlockOut k False \<Longrightarrow>
    Unlock_step rogue i s (goto i Idle (s\<lparr>mu := None\<rparr>))"
| unlock_test: "pcs s i = UnlockTest k \<Longrightarrow> locks s k = Some lk \<Longrightarrow> locked lk \<Longrightarrow>
    Unlock_step rogue i s (goto i (UnlockClear k) s)"
| unlock_free: "pcs s i = UnlockTest k \<Longrightarrow> locks s k = Some lk \<Longrightarrow> \<not> locked lk \<Longrightarrow>
    Unlock_step rogue i s (goto i Idle s)"
| unlock_clear: "pcs s i = UnlockClear k \<Longrightarrow> locks s k = Some lk \<Longrightarrow>
    Unlock_step rogue i s (goto i (UnlockSend k) (s\<lparr>locks := (locks s)(k \<mapsto> lk\<lparr>locked := False\<rparr>)\<rparr>))"
| unlock_send: "pcs s i = UnlockSend k \<Longrightarrow> locks s k = Some lk \<Longrightarrow> \<not> token lk \<Longrightarrow>
    Unlock_step rogue i s (goto i Idle (s\<lparr>locks := (locks s)(k \<mapsto> lk\<lparr>token := True\<rparr>)\<rparr>))"

inductive IsLocked_step :: "nat \<Rightarrow> msys \<Rightarrow> msys \<Rightarrow> bool" for i where
  is_call: "pcs s i = Idle \<Longrightarrow> IsLocked_step i s (goto i (IsStart k) s)"
| is_mu: "pcs s i = IsStart k \<Longrightarrow> mu s = None \<Longrightarrow>
    IsLocked_step i s (goto i (IsIn k) (s\<lparr>mu := Some i\<rparr>))"
| is_get: "pcs s i = IsIn k \<Longrightarrow> IsLocked_step i s (goto i (IsOut k (locks s k \<noteq> None)) s)"
| is_unmu: "pcs s i = IsOut k True \<Longrightarrow> IsLocked_step i s (goto i (IsRead k) (s\<lparr>mu := None\<rparr>))"
| is_none: "pcs s i = IsOut k False \<Longrightarrow>
    IsLocked_step i s (goto i (IsAnswer k False) (s\<lparr>mu := None\<rparr>))"
| is_read: "pcs s i = IsRead k \<Longrightarrow> locks s k = Some lk \<Longrightarrow>
    IsLocked_step i s (goto i (IsAnswer k (locked lk)) s)"
| is_return: "pcs s i = IsAnswer k b \<Longrightarrow> IsLocked_step i s (goto i Idle s)"

definition mstep :: "bool \<Rightarrow> nat \<Rightarrow> msys \<Rightarrow> msys \<Rightarrow> bool" where
  "mstep rogue i s t \<longleftrightarrow>
     Lock_step i s t \<or> TryLock_step i s t \<or> Unlock_step rogue i s t \<or> IsLocked_step i s t"

definition init_msys :: msys where
  "init_msys = \<lparr>mu = None, locks = NewNamedMutex, pcs = (\<lambda>_. Idle)\<rparr>"

inductive reachable :: "bool \<Rightarrow> msys \<Rightarrow> bool" for rogue where
  start: "reachable rogue init_msys"
| step: "reachable rogue s \<Longrightarrow> mstep rogue i s t \<Longrightarrow> reachable rogue t"

section \<open>What a program counter says\<close>

text \<open>The name whose token the thread has taken and not yet returned.\<close>

fun owns :: "pc \<Rightarrow> string option" where
  "owns (LockMark k) = Some k"
| "owns (TryMark k) = Some k"
| "owns (Held k) = Some k"
| "owns (UnlockStart k) = Some k"
| "owns (UnlockIn k) = Some k"
| "owns (UnlockOut k b) = Some k"
| "owns (UnlockTest k) = Some k"
| "owns (UnlockClear k) = Some k"
| "owns (UnlockSend k) = Some k"
| "owns _ = None"

text \<open>The owner has set the flag and not yet cleared it.\<close>

fun flagged :: "pc \<Rightarrow> bool" where
  "flagged (LockMark k) = False"
| "flagged (TryMark k) = False"
| "flagged (UnlockSend k) = False"
| "flagged p = (owns p \<noteq> None)"

fun in_mu :: "pc \<Rightarrow> bool" where
  "in_mu (LockIn k) = True"
| "in_mu (LockOut k) = True"
| "in_mu (TryIn k) = True"
| "in_mu (TryFail k) = True"
| "in_mu (TryOut k) = True"
| "in_mu (UnlockIn k) = True"
| "in_mu (UnlockOut k b) = True"
| "in_mu (IsIn k) = True"
| "in_mu (IsOut k b) = True"
| "in_mu _ = False"

text \<open>The name whose lock the thread will use without looking it up again.\<close>

fun needs :: "pc \<Rightarrow> string option" where
  "needs (LockOut k) = Some k"
| "needs (LockRecv k) = Some k"
| "needs (TryOut k) = Some k"
| "needs (TrySelect k) = Some k"
| "needs (UnlockOut k b) = (if b then Some k else None)"
| "needs (IsOut k b) = (if b then Some k else None)"
| "needs (IsRead k) = Some k"
| "needs p = owns p"

section \<open>The invariant\<close>

definition mu_inv :: "msys \<Rightarrow> bool" where
  "mu_inv s \<longleftrightarrow> (\<forall>i. mu s = Some i \<longleftrightarrow> in_mu (pcs s i))"

definition entry_inv :: "msys \<Rightarrow> bool" where
  "entry_inv s \<longleftrightarrow>
     (\<forall>i k. needs (pcs s i) = Some k \<or> owns (pcs s i) = Some k \<longrightarrow> k \<in> dom (locks s)) \<and>
     (\<forall>i k. pcs s i \<noteq> UnlockOut k False)"

text \<open>
  A name has at most one owner, its token is there exactly when it has none, and its flag is set
  exactly when its owner has set it. Stated on the owner and flag of each thread.
\<close>

definition token_ok :: "(nat \<Rightarrow> string option) \<Rightarrow> nmutex \<Rightarrow> bool" where
  "token_ok own m \<longleftrightarrow>
     (\<forall>i j k. own i = Some k \<longrightarrow> own j = Some k \<longrightarrow> i = j) \<and>
     (\<forall>i k. own i = Some k \<longrightarrow> k \<in> dom m) \<and>
     (\<forall>k lk. m k = Some lk \<longrightarrow> token lk = (\<forall>i. own i \<noteq> Some k))"

definition flag_ok :: "(nat \<Rightarrow> string option) \<Rightarrow> (nat \<Rightarrow> bool) \<Rightarrow> nmutex \<Rightarrow> bool" where
  "flag_ok own flg m \<longleftrightarrow>
     (\<forall>k lk. m k = Some lk \<longrightarrow> locked lk = (\<exists>i. own i = Some k \<and> flg i))"

definition token_inv :: "msys \<Rightarrow> bool" where
  "token_inv s \<longleftrightarrow> token_ok (\<lambda>i. owns (pcs s i)) (locks s)"

definition flag_inv :: "msys \<Rightarrow> bool" where
  "flag_inv s \<longleftrightarrow> flag_ok (\<lambda>i. owns (pcs s i)) (\<lambda>i. flagged (pcs s i)) (locks s)"

definition conc_inv :: "msys \<Rightarrow> bool" where
  "conc_inv s \<longleftrightarrow> mu_inv s \<and> entry_inv s \<and> token_inv s \<and> flag_inv s"

lemmas step_simps = goto_def ensure_def new_lock_def

lemmas step_cases = Lock_step.cases TryLock_step.cases Unlock_step.cases IsLocked_step.cases

lemma mu_inv_step:
  assumes "mstep rogue i s t" and "mu_inv s"
  shows "mu_inv t"
proof -
  have all: "\<forall>j. mu s = Some j \<longleftrightarrow> in_mu (pcs s j)" using assms(2) by (simp add: mu_inv_def)
  then have "mu s = Some i \<longleftrightarrow> in_mu (pcs s i)"
    and "in_mu (pcs s i) \<Longrightarrow> \<forall>j. in_mu (pcs s j) \<longrightarrow> j = i"
    by (blast, metis option.inject)
  with assms(1) all show ?thesis
    unfolding mstep_def mu_inv_def
    by (elim disjE step_cases) (auto simp: step_simps)
qed

lemma dom_ensure [simp]: "dom (ensure k m) = insert k (dom m)"
  by (auto simp: ensure_def split: option.splits)

lemma entry_inv_step:
  assumes "mstep False i s t" and "entry_inv s"
  shows "entry_inv t"
proof -
  have all: "\<forall>j k. needs (pcs s j) = Some k \<or> owns (pcs s j) = Some k \<longrightarrow> k \<in> dom (locks s)"
      "\<forall>j k. pcs s j \<noteq> UnlockOut k False"
    using assms(2) by (auto simp: entry_inv_def)
  then have "\<forall>k. needs (pcs s i) = Some k \<or> owns (pcs s i) = Some k \<longrightarrow> k \<in> dom (locks s)"
    by blast
  with assms(1) all show ?thesis
    unfolding mstep_def entry_inv_def
    by (elim disjE step_cases) (auto simp: goto_def)
qed

section \<open>The effect of a step on the locks\<close>

text \<open>
  A step changes the token or the flag of at most one lock, and only in step with what its
  thread owns.
\<close>

datatype effect = Quiet | Create string | Take string | Mark string | Clear string | Give string

fun has_effect :: "effect \<Rightarrow> nmutex \<Rightarrow> pc \<Rightarrow> pc \<Rightarrow> nmutex \<Rightarrow> bool" where
  "has_effect Quiet m p p' m' \<longleftrightarrow> m' = m \<and> owns p' = owns p \<and> flagged p' = flagged p"
| "has_effect (Create k) m p p' m' \<longleftrightarrow>
     m k = None \<and> m' = m(k \<mapsto> new_lock) \<and> owns p = None \<and> owns p' = None \<and> flagged p' = flagged p"
| "has_effect (Take k) m p p' m' \<longleftrightarrow>
     (\<exists>lk. m k = Some lk \<and> token lk \<and> m' = m(k \<mapsto> lk\<lparr>token := False\<rparr>)) \<and>
     owns p = None \<and> owns p' = Some k \<and> \<not> flagged p'"
| "has_effect (Mark k) m p p' m' \<longleftrightarrow>
     (\<exists>lk. m k = Some lk \<and> m' = m(k \<mapsto> lk\<lparr>locked := True\<rparr>)) \<and>
     owns p = Some k \<and> owns p' = Some k \<and> flagged p'"
| "has_effect (Clear k) m p p' m' \<longleftrightarrow>
     (\<exists>lk. m k = Some lk \<and> m' = m(k \<mapsto> lk\<lparr>locked := False\<rparr>)) \<and>
     owns p = Some k \<and> owns p' = Some k \<and> \<not> flagged p'"
| "has_effect (Give k) m p p' m' \<longleftrightarrow>
     (\<exists>lk. m k = Some lk \<and> \<not> token lk \<and> m' = m(k \<mapsto> lk\<lparr>token := True\<rparr>)) \<and>
     owns p = Some k \<and> \<not> flagged p \<and> owns p' = None \<and> \<not> flagged p'"

definition some_effect :: "nmutex \<Rightarrow> pc \<Rightarrow> pc \<Rightarrow> nmutex \<Rightarrow> bool" where
  "some_effect m p p' m' \<longleftrightarrow> (\<exists>e. has_effect e m p p' m')"

lemma some_effect_iff:
  "some_effect m p p' m' \<longleftrightarrow>
     has_effect Quiet m p p' m' \<or> (\<exists>k. has_effect (Create k) m p p' m') \<or>
     (\<exists>k. has_effect (Take k) m p p' m') \<or> (\<exists>k. has_effect (Mark k) m p p' m') \<or>
     (\<exists>k. has_effect (Clear k) m p p' m') \<or> (\<exists>k. has_effect (Give k) m p p' m')"
  unfolding some_effect_def by (metis effect.exhaust)

lemma mstep_effect:
  assumes "mstep False i s t" and "conc_inv s"
  shows "pcs t = (pcs s)(i := pcs t i)" and "some_effect (locks s) (pcs s i) (pcs t i) (locks t)"
proof -
  show "pcs t = (pcs s)(i := pcs t i)"
    using assms(1) unfolding mstep_def by (elim disjE step_cases) (auto simp: goto_def)
  have flag: "locks s k = Some lk \<Longrightarrow> owns (pcs s i) = Some k \<Longrightarrow> flagged (pcs s i) \<Longrightarrow> locked lk"
    and out: "pcs s i \<noteq> UnlockOut k False" for k lk
    using assms(2) by (auto simp: conc_inv_def flag_inv_def flag_ok_def entry_inv_def)
  show "some_effect (locks s) (pcs s i) (pcs t i) (locks t)"
    using assms(1) flag out unfolding mstep_def some_effect_iff
    by (elim disjE step_cases) (auto simp: goto_def ensure_def split: option.splits)
qed

lemma token_ok_locked:
  "token_ok own m \<Longrightarrow> m k = Some lk \<Longrightarrow> token_ok own (m(k \<mapsto> lk\<lparr>locked := b\<rparr>))"
  unfolding token_ok_def by auto

lemma flag_ok_update:
  assumes "flag_ok own flg m"
    and "\<And>j k'. k' \<noteq> k \<Longrightarrow> own' j = Some k' \<and> flg' j \<longleftrightarrow> own j = Some k' \<and> flg j"
    and "locked lk \<longleftrightarrow> (\<exists>j. own' j = Some k \<and> flg' j)"
  shows "flag_ok own' flg' (m(k \<mapsto> lk))"
  using assms unfolding flag_ok_def by auto

lemma token_ok_effect:
  assumes "token_ok own m" and "own i = owns p" and "some_effect m p p' m'"
  shows "token_ok (own(i := owns p')) m'"
proof -
  have uniq: "\<And>i j k. own i = Some k \<Longrightarrow> own j = Some k \<Longrightarrow> i = j"
    and dom: "\<And>i k. own i = Some k \<Longrightarrow> k \<in> dom m"
    and tok: "\<And>k lk. m k = Some lk \<Longrightarrow> token lk = (\<forall>i. own i \<noteq> Some k)"
    using assms(1) by (auto simp: token_ok_def)
  from assms(3) obtain e where "has_effect e m p p' m'" by (auto simp: some_effect_def)
  then show ?thesis
  proof (cases e)
    case Quiet
    with \<open>has_effect e m p p' m'\<close> assms show ?thesis by (simp add: fun_upd_idem)
  next
    case (Create k)
    with \<open>has_effect e m p p' m'\<close> assms(2)
    have eff: "m k = None" "m' = m(k \<mapsto> new_lock)" "own(i := owns p') = own" by auto
    have "own j \<noteq> Some k" for j using dom [of j k] eff(1) by auto
    with eff assms(1) show ?thesis by (auto simp: token_ok_def new_lock_def)
  next
    case (Take k)
    with \<open>has_effect e m p p' m'\<close> assms(2) obtain lk where
      eff: "m k = Some lk" "token lk" "m' = m(k \<mapsto> lk\<lparr>token := False\<rparr>)" "own i = None" "owns p' = Some k"
      by auto
    then have "\<forall>j. own j \<noteq> Some k" using tok by blast
    with eff assms(1) show ?thesis by (auto simp: token_ok_def) (metis option.distinct(1))
  next
    case (Mark k)
    with \<open>has_effect e m p p' m'\<close> assms(2) obtain lk where
      eff: "m k = Some lk" "m' = m(k \<mapsto> lk\<lparr>locked := True\<rparr>)" "own(i := owns p') = own"
      by (auto simp: fun_upd_idem)
    then show ?thesis by (simp only: token_ok_locked [OF assms(1)])
  next
    case (Clear k)
    with \<open>has_effect e m p p' m'\<close> assms(2) obtain lk where
      eff: "m k = Some lk" "m' = m(k \<mapsto> lk\<lparr>locked := False\<rparr>)" "own(i := owns p') = own"
      by (auto simp: fun_upd_idem)
    then show ?thesis by (simp only: token_ok_locked [OF assms(1)])
  next
    case (Give k)
    with \<open>has_effect e m p p' m'\<close> assms(2) obtain lk where
      eff: "m k = Some lk" "m' = m(k \<mapsto> lk\<lparr>token := True\<rparr>)" "own i = Some k" "owns p' = None"
      by auto
    then have "own j = Some k \<Longrightarrow> j = i" for j using uniq by blast
    with eff assms(1) show ?thesis by (auto simp: token_ok_def) (metis option.inject)
  qed
qed

lemma flag_ok_effect:
  assumes "token_ok own m" and "flag_ok own flg m" and "own i = owns p" and "flg i = flagged p"
    and "some_effect m p p' m'"
  shows "flag_ok (own(i := owns p')) (flg(i := flagged p')) m'"
proof -
  have uniq: "\<And>i j k. own i = Some k \<Longrightarrow> own j = Some k \<Longrightarrow> i = j"
    and dom: "\<And>i k. own i = Some k \<Longrightarrow> k \<in> dom m"
    and tok: "\<And>k lk. m k = Some lk \<Longrightarrow> token lk = (\<forall>i. own i \<noteq> Some k)"
    and flag: "\<And>k lk. m k = Some lk \<Longrightarrow> locked lk = (\<exists>i. own i = Some k \<and> flg i)"
    using assms(1,2) by (auto simp: token_ok_def flag_ok_def)
  from assms(5) obtain e where "has_effect e m p p' m'" by (auto simp: some_effect_def)
  then show ?thesis
  proof (cases e)
    case Quiet
    with \<open>has_effect e m p p' m'\<close> assms show ?thesis by (simp add: fun_upd_idem)
  next
    case (Create k)
    with \<open>has_effect e m p p' m'\<close> assms(3,4)
    have eff: "m k = None" "m' = m(k \<mapsto> new_lock)" "own(i := owns p') = own"
      by (auto simp: fun_upd_idem)
    have "flg(i := flagged p') = flg"
      using Create \<open>has_effect e m p p' m'\<close> assms(4) by (simp add: fun_upd_idem)
    moreover have "own j \<noteq> Some k" for j using dom [of j k] eff(1) by auto
    ultimately show ?thesis
      unfolding eff by (intro flag_ok_update [OF assms(2)]) (auto simp: new_lock_def)
  next
    case (Take k)
    with \<open>has_effect e m p p' m'\<close> assms(3) obtain lk where
      eff: "m k = Some lk" "token lk" "m' = m(k \<mapsto> lk\<lparr>token := False\<rparr>)" "own i = None"
        "owns p' = Some k" "\<not> flagged p'"
      by auto
    then have "\<forall>j. own j \<noteq> Some k" using tok by blast
    with eff flag [OF eff(1)] show ?thesis
      unfolding eff(3) by (intro flag_ok_update [OF assms(2)]) auto
  next
    case (Mark k)
    with \<open>has_effect e m p p' m'\<close> assms(3) obtain lk where
      eff: "m k = Some lk" "m' = m(k \<mapsto> lk\<lparr>locked := True\<rparr>)" "own i = Some k" "owns p' = Some k"
        "flagged p'"
      by auto
    then show ?thesis
      unfolding eff(2) by (intro flag_ok_update [OF assms(2)]) auto
  next
    case (Clear k)
    with \<open>has_effect e m p p' m'\<close> assms(3) obtain lk where
      eff: "m k = Some lk" "m' = m(k \<mapsto> lk\<lparr>locked := False\<rparr>)" "own i = Some k" "owns p' = Some k"
        "\<not> flagged p'"
      by auto
    moreover have "own j \<noteq> Some k" if "j \<noteq> i" for j using uniq eff(3) that by blast
    ultimately show ?thesis
      unfolding eff(2) by (intro flag_ok_update [OF assms(2)]) auto
  next
    case (Give k)
    with \<open>has_effect e m p p' m'\<close> assms(3,4) obtain lk where
      eff: "m k = Some lk" "m' = m(k \<mapsto> lk\<lparr>token := True\<rparr>)" "own i = Some k" "owns p' = None"
        "\<not> flg i" "\<not> flagged p'"
      by auto
    have only: "\<And>j. own j = Some k \<Longrightarrow> j = i" by (rule uniq [OF _ eff(3)])
    then have "\<not> locked lk" using flag [OF eff(1)] eff(5) by auto
    with eff(3-6) show ?thesis
      unfolding eff(2) by (intro flag_ok_update [OF assms(2)]) (auto dest: only)
  qed
qed

lemma conc_inv_init: "conc_inv init_msys"
  by (simp add: conc_inv_def mu_inv_def entry_inv_def token_inv_def flag_inv_def token_ok_def
      flag_ok_def init_msys_def NewNamedMutex_def)

lemma conc_inv_step:
  assumes "mstep False i s t" and "conc_inv s"
  shows "conc_inv t"
proof -
  note eff = mstep_effect [OF assms]
  have upd: "(\<lambda>j. f (pcs t j)) = (\<lambda>j. f (pcs s j))(i := f (pcs t i))" for f :: "pc \<Rightarrow> 'b"
    by (rule ext) (metis eff(1) fun_upd_apply)
  have "token_ok (\<lambda>j. owns (pcs t j)) (locks t)"
    unfolding upd using assms(2) eff(2)
    by (intro token_ok_effect) (auto simp: conc_inv_def token_inv_def)
  moreover have "flag_ok (\<lambda>j. owns (pcs t j)) (\<lambda>j. flagged (pcs t j)) (locks t)"
    unfolding upd using assms(2) eff(2)
    by (intro flag_ok_effect) (auto simp: conc_inv_def token_inv_def flag_inv_def)
  ultimately show ?thesis
    using assms mu_inv_step entry_inv_step by (simp add: conc_inv_def token_inv_def flag_inv_def)
qed

lemma reachable_conc_inv: "reachable False s \<Longrightarrow> conc_inv s"
  by (induction rule: reachable.induct) (auto intro: conc_inv_init conc_inv_step)

section \<open>The specification: a map from names to owners\<close>

text \<open>
  The specification knows only who holds which name. The first step of ownership is the receive
  that takes the token, the last is the send that returns it.
\<close>

inductive spec_step :: "nat \<Rightarrow> (string \<rightharpoonup> nat) \<Rightarrow> (string \<rightharpoonup> nat) \<Rightarrow> bool" for i where
  spec_acquire: "a k = None \<Longrightarrow> spec_step i a (a(k \<mapsto> i))"
| spec_release: "a k = Some i \<Longrightarrow> spec_step i a (a(k := None))"

definition owner_map :: "msys \<Rightarrow> (string \<rightharpoonup> nat) \<Rightarrow> bool" where
  "owner_map s a \<longleftrightarrow> (\<forall>k i. a k = Some i \<longleftrightarrow> owns (pcs s i) = Some k)"

lemma owner_map_None: "owner_map s a \<Longrightarrow> a k = None \<longleftrightarrow> (\<forall>i. owns (pcs s i) \<noteq> Some k)"
  unfolding owner_map_def by (metis not_None_eq)

lemma owner_map_simulation:
  assumes "mstep False i s t" and "conc_inv s" and "owner_map s a"
  shows "owner_map t a \<or> (\<exists>a'. spec_step i a a' \<and> owner_map t a')"
proof -
  note eff = mstep_effect [OF assms(1,2)]
  have own: "owns (pcs t j) = (if j = i then owns (pcs t i) else owns (pcs s j))" for j
    using eff(1) by (metis fun_upd_apply)
  have uniq: "\<And>j l k. owns (pcs s j) = Some k \<Longrightarrow> owns (pcs s l) = Some k \<Longrightarrow> j = l"
    and tok: "\<And>k lk. locks s k = Some lk \<Longrightarrow> token lk = (\<forall>j. owns (pcs s j) \<noteq> Some k)"
    using assms(2) by (auto simp: conc_inv_def token_inv_def token_ok_def)
  show ?thesis
  proof (cases "owns (pcs t i) = owns (pcs s i)")
    case True
    then have "owns (pcs t j) = owns (pcs s j)" for j using own [of j] by simp
    with assms(3) show ?thesis by (simp add: owner_map_def)
  next
    case False
    with eff(2) consider (take) k lk where "locks s k = Some lk" "token lk"
        "owns (pcs s i) = None" "owns (pcs t i) = Some k"
      | (give) k where "owns (pcs s i) = Some k" "owns (pcs t i) = None"
      by (auto simp: some_effect_iff)
    then show ?thesis
    proof cases
      case take
      have free: "a k = None"
        using tok [OF take(1)] take(2) owner_map_None [OF assms(3), of k] by simp
      have rel: "\<And>k' j. a k' = Some j \<longleftrightarrow> owns (pcs s j) = Some k'"
        using assms(3) by (simp add: owner_map_def)
      have "(a(k \<mapsto> i)) k' = Some j \<longleftrightarrow> owns (pcs t j) = Some k'" for k' j
      proof (cases "j = i")
        case True
        then show ?thesis using rel [of k' i] take(3,4) own [of i] by auto
      next
        case False
        then show ?thesis using rel [of k' j] own [of j] free by auto
      qed
      then have "owner_map t (a(k \<mapsto> i))" by (simp add: owner_map_def)
      with free show ?thesis using spec_acquire by blast
    next
      case give
      have held: "a k = Some i" using give(1) assms(3) by (simp add: owner_map_def)
      have only: "\<And>j. owns (pcs s j) = Some k \<Longrightarrow> j = i" by (rule uniq [OF _ give(1)])
      have "(a(k := None)) k' = Some j \<longleftrightarrow> owns (pcs t j) = Some k'" for k' j
      proof (cases "j = i")
        case True
        then show ?thesis using assms(3) give own [of i] by (simp add: owner_map_def)
      next
        case False
        then show ?thesis using assms(3) only [of j] own [of j] by (auto simp: owner_map_def)
      qed
      then have "owner_map t (a(k := None))" by (simp add: owner_map_def)
      with held show ?thesis using spec_release by blast
    qed
  qed
qed

section \<open>Progress\<close>

lemma in_mu_can_step:
  assumes "in_mu (pcs s i)"
  shows "\<exists>t. mstep False i s t"
proof (cases "pcs s i")
  case (LockIn k) then show ?thesis unfolding mstep_def by (blast intro: lock_ensure)
next
  case (LockOut k) then show ?thesis unfolding mstep_def by (blast intro: lock_unmu)
next
  case (TryIn k) then show ?thesis unfolding mstep_def
    by (cases "locks s k") (auto intro: try_new try_locked try_maybe)
next
  case (TryFail k) then show ?thesis unfolding mstep_def by (blast intro: try_false)
next
  case (TryOut k) then show ?thesis unfolding mstep_def by (blast intro: try_unmu)
next
  case (UnlockIn k) then show ?thesis unfolding mstep_def by (blast intro: unlock_get)
next
  case (UnlockOut k b) then show ?thesis unfolding mstep_def
    by (cases b) (auto intro: unlock_unmu unlock_none)
next
  case (IsIn k) then show ?thesis unfolding mstep_def by (blast intro: is_get)
next
  case (IsOut k b) then show ?thesis unfolding mstep_def
    by (cases b) (auto intro: is_unmu is_none)
qed (use assms in auto)

lemma start_can_step:
  assumes "mu s = None" and "pcs s i \<in> {LockStart k, TryStart k, UnlockStart k, IsStart k}"
  shows "\<exists>t. mstep False i s t"
  using assms unfolding mstep_def by (blast intro: lock_mu try_mu unlock_mu is_mu)

lemma start_blocked:
  assumes "conc_inv s" and "pcs s i \<in> {LockStart k, TryStart k, UnlockStart k, IsStart k}"
  shows "(\<exists>t. mstep False i s t) \<or> (\<exists>j t. mu s = Some j \<and> mstep False j s t)"
proof (cases "mu s")
  case None
  then show ?thesis using start_can_step assms(2) by blast
next
  case (Some j)
  then have "in_mu (pcs s j)" using assms(1) unfolding conc_inv_def mu_inv_def by blast
  with Some show ?thesis using in_mu_can_step by blast
qed

lemma channel_step:
  assumes "conc_inv s" and "needs (pcs s i) = Some k" and "\<not> in_mu (pcs s i)"
    and "pcs s i \<noteq> UnlockStart k"
  shows "(\<exists>t. mstep False i s t) \<or> (pcs s i = LockRecv k \<and> (\<exists>j. owns (pcs s j) = Some k))"
proof -
  obtain lk where lk: "locks s k = Some lk"
    using assms(1,2) unfolding conc_inv_def entry_inv_def by blast
  have tok: "token lk = (\<forall>j. owns (pcs s j) \<noteq> Some k)"
    using assms(1) lk by (auto simp: conc_inv_def token_inv_def token_ok_def)
  show ?thesis
  proof (cases "pcs s i")
    case (LockRecv k')
    with assms(2) lk tok show ?thesis unfolding mstep_def by (auto intro: lock_recv)
  next
    case (LockMark k')
    with assms(2) lk show ?thesis unfolding mstep_def by (auto intro: lock_mark)
  next
    case (TrySelect k')
    with assms(2) lk show ?thesis unfolding mstep_def
      by (cases "token lk") (auto intro: try_recv try_default)
  next
    case (TryMark k')
    with assms(2) lk show ?thesis unfolding mstep_def by (auto intro: TryLock_step.try_mark)
  next
    case (Held k')
    then show ?thesis unfolding mstep_def by (auto intro: unlock_call)
  next
    case (UnlockTest k')
    with assms(2) lk show ?thesis unfolding mstep_def
      by (cases "locked lk") (auto intro: unlock_test unlock_free)
  next
    case (UnlockClear k')
    with assms(2) lk show ?thesis unfolding mstep_def by (auto intro: unlock_clear)
  next
    case (UnlockSend k')
    then have "owns (pcs s i) = Some k" using assms(2) by simp
    with tok have "\<not> token lk" by blast
    with UnlockSend assms(2) lk show ?thesis unfolding mstep_def by (auto intro: unlock_send)
  next
    case (IsRead k')
    with assms(2) lk show ?thesis unfolding mstep_def by (auto intro: is_read)
  qed (use assms in auto)
qed

lemma conc_progress:
  assumes "conc_inv s"
  shows "(\<exists>t. mstep False i s t) \<or> (\<exists>j t. mu s = Some j \<and> mstep False j s t) \<or>
         (\<exists>k j. pcs s i = LockRecv k \<and> owns (pcs s j) = Some k)"
proof -
  consider (idle) "pcs s i = Idle" | (answer) k b where "pcs s i = IsAnswer k b" | (mu) "in_mu (pcs s i)"
    | (enter) k where "pcs s i \<in> {LockStart k, TryStart k, UnlockStart k, IsStart k}"
    | (chan) k where "needs (pcs s i) = Some k" "\<not> in_mu (pcs s i)" "pcs s i \<noteq> UnlockStart k"
    by (cases "pcs s i") auto
  then show ?thesis
  proof cases
    case idle
    then show ?thesis unfolding mstep_def using try_call by blast
  next
    case answer
    then show ?thesis unfolding mstep_def using is_return by blast
  next
    case mu
    then show ?thesis using in_mu_can_step by blast
  next
    case enter
    then show ?thesis using start_blocked [OF assms] by blast
  next
    case chan
    then show ?thesis using channel_step [OF assms] by blast
  qed
qed

section \<open>Runs of one goroutine\<close>

text \<open>What a goroutine that nobody interrupts reaches, for building example runs.\<close>

lemma reach_try: "reachable r s \<Longrightarrow> TryLock_step i s t \<Longrightarrow> t = u \<Longrightarrow> reachable r u"
  by (blast intro: reachable.step [unfolded mstep_def])

lemma reach_is: "reachable r s \<Longrightarrow> IsLocked_step i s t \<Longrightarrow> t = u \<Longrightarrow> reachable r u"
  by (blast intro: reachable.step [unfolded mstep_def])

lemma reach_unlock: "reachable r s \<Longrightarrow> Unlock_step r i s t \<Longrightarrow> t = u \<Longrightarrow> reachable r u"
  by (blast intro: reachable.step [unfolded mstep_def])

lemma goto_simps [simp]:
  "pcs (goto i p s) = (pcs s)(i := p)" "mu (goto i p s) = mu s" "locks (goto i p s) = locks s"
  "goto i p (goto i q s) = goto i p s"
  "goto i p (s\<lparr>mu := h\<rparr>) = (goto i p s)\<lparr>mu := h\<rparr>"
  "goto i p (s\<lparr>locks := m\<rparr>) = (goto i p s)\<lparr>locks := m\<rparr>"
  by (simp add: goto_def)+

lemma run_TryIn:
  assumes "reachable r s" and "pcs s i = Idle" and "mu s = None"
  shows "reachable r (goto i (TryIn k) (s\<lparr>mu := Some i\<rparr>))"
proof -
  have "reachable r (goto i (TryStart k) s)"
    by (rule reach_try [OF assms(1) try_call [of s i k]]) (simp add: assms)+
  then show ?thesis
    by (rule reach_try [OF _ try_mu [where i = i and k = k]]) (simp add: assms)+
qed

lemma run_TryMark_new:
  assumes "reachable r s" and "pcs s i = Idle" and "mu s = None" and "locks s k = None"
  shows "reachable r (goto i (TryMark k) (s\<lparr>locks := (locks s)(k \<mapsto> \<lparr>token = False, locked = False\<rparr>)\<rparr>))"
proof -
  let ?m = "(locks s)(k \<mapsto> new_lock)"
  have "reachable r (goto i (TryOut k) (s\<lparr>mu := Some i, locks := ?m\<rparr>))"
    by (rule reach_try [OF run_TryIn [OF assms(1-3), of k] try_new [where i = i and k = k]])
      (simp add: assms)+
  then have "reachable r (goto i (TrySelect k) (s\<lparr>mu := None, locks := ?m\<rparr>))"
    by (rule reach_try [OF _ try_unmu [where i = i and k = k]]) simp+
  then show ?thesis
    by (rule reach_try [OF _ try_recv [where i = i and k = k]])
      (simp add: new_lock_def flip: assms(3))+
qed

lemma run_Held_new:
  assumes "reachable r s" and "pcs s i = Idle" and "mu s = None" and "locks s k = None"
  shows "reachable r (goto i (Held k) (s\<lparr>locks := (locks s)(k \<mapsto> \<lparr>token = False, locked = True\<rparr>)\<rparr>))"
  by (rule reach_try [OF run_TryMark_new [OF assms] TryLock_step.try_mark [where i = i and k = k]]) simp+

lemma run_IsRead:
  assumes "reachable r s" and "pcs s i = Idle" and "mu s = None" and "locks s k \<noteq> None"
  shows "reachable r (goto i (IsRead k) s)"
proof -
  have "reachable r (goto i (IsStart k) s)"
    by (rule reach_is [OF assms(1) is_call [of s i k]]) (simp add: assms)+
  then have "reachable r (goto i (IsIn k) (s\<lparr>mu := Some i\<rparr>))"
    by (rule reach_is [OF _ is_mu [where i = i and k = k]]) (simp add: assms)+
  then have "reachable r (goto i (IsOut k True) (s\<lparr>mu := Some i\<rparr>))"
    by (rule reach_is [OF _ is_get [where i = i and k = k]]) (use assms(4) in auto)
  then show ?thesis
    by (rule reach_is [OF _ is_unmu [where i = i and k = k]]) (simp flip: assms(3))+
qed

text \<open>The states the examples below start from: goroutine 0 has just taken, or holds, a name.\<close>

definition took_state :: "string \<Rightarrow> msys" where
  "took_state k = goto 0 (TryMark k)
     (init_msys\<lparr>locks := Map.empty(k \<mapsto> \<lparr>token = False, locked = False\<rparr>)\<rparr>)"

definition held_state :: "string \<Rightarrow> msys" where
  "held_state k = goto 0 (Held k)
     (init_msys\<lparr>locks := Map.empty(k \<mapsto> \<lparr>token = False, locked = True\<rparr>)\<rparr>)"

lemma init_msys_simps [simp]:
  "mu init_msys = None" "locks init_msys = Map.empty" "pcs init_msys = (\<lambda>_. Idle)"
  by (simp add: init_msys_def NewNamedMutex_def)+

lemma reachable_took: "reachable r (took_state k)"
  using run_TryMark_new [OF reachable.start, of 0 k] by (simp add: took_state_def)

lemma reachable_held: "reachable r (held_state k)"
  using run_Held_new [OF reachable.start, of 0 k] by (simp add: held_state_def)

lemma example_states [simp]:
  "mu (took_state k) = None" "mu (held_state k) = None"
  "pcs (took_state k) = (\<lambda>_. Idle)(0 := TryMark k)" "pcs (held_state k) = (\<lambda>_. Idle)(0 := Held k)"
  "locks (took_state k) = Map.empty(k \<mapsto> \<lparr>token = False, locked = False\<rparr>)"
  "locks (held_state k) = Map.empty(k \<mapsto> \<lparr>token = False, locked = True\<rparr>)"
  by (simp add: took_state_def held_state_def)+

text \<open>A goroutine that unlocks a name it does not hold frees it.\<close>

lemma run_rogue_Unlock:
  assumes "reachable True s" and "pcs s i = Idle" and "mu s = None"
    and "locks s k = Some \<lparr>token = False, locked = True\<rparr>"
  shows "reachable True (goto i Idle (s\<lparr>locks := (locks s)(k \<mapsto> \<lparr>token = True, locked = False\<rparr>)\<rparr>))"
proof -
  have "reachable True (goto i (UnlockStart k) s)"
    by (rule reach_unlock [OF assms(1) unlock_rogue [of True s i k]]) (simp add: assms)+
  then have "reachable True (goto i (UnlockIn k) (s\<lparr>mu := Some i\<rparr>))"
    by (rule reach_unlock [OF _ unlock_mu [where i = i and k = k]]) (simp add: assms)+
  then have "reachable True (goto i (UnlockOut k True) (s\<lparr>mu := Some i\<rparr>))"
    by (rule reach_unlock [OF _ unlock_get [where i = i and k = k]]) (use assms(4) in auto)
  then have "reachable True (goto i (UnlockTest k) s)"
    by (rule reach_unlock [OF _ unlock_unmu [where i = i and k = k]]) (simp flip: assms(3))+
  then have "reachable True (goto i (UnlockClear k) s)"
    by (rule reach_unlock [OF _ unlock_test [where i = i and k = k]]) (simp add: assms)+
  then have "reachable True (goto i (UnlockSend k)
      (s\<lparr>locks := (locks s)(k \<mapsto> \<lparr>token = False, locked = False\<rparr>)\<rparr>))"
    by (rule reach_unlock [OF _ unlock_clear [where i = i and k = k]]) (simp add: assms)+
  then show ?thesis
    by (rule reach_unlock [OF _ unlock_send [where i = i and k = k]]) simp+
qed

lemma run_Held_free:
  assumes "reachable r s" and "pcs s i = Idle" and "mu s = None"
    and "locks s k = Some \<lparr>token = True, locked = False\<rparr>"
  shows "reachable r (goto i (Held k) (s\<lparr>locks := (locks s)(k \<mapsto> \<lparr>token = False, locked = True\<rparr>)\<rparr>))"
proof -
  have "reachable r (goto i (TryOut k) (s\<lparr>mu := Some i\<rparr>))"
    by (rule reach_try [OF run_TryIn [OF assms(1-3), of k] try_maybe [where i = i and k = k]])
      (simp add: assms)+
  then have "reachable r (goto i (TrySelect k) s)"
    by (rule reach_try [OF _ try_unmu [where i = i and k = k]]) (simp flip: assms(3))+
  then have "reachable r (goto i (TryMark k)
      (s\<lparr>locks := (locks s)(k \<mapsto> \<lparr>token = False, locked = False\<rparr>)\<rparr>))"
    by (rule reach_try [OF _ try_recv [where i = i and k = k]]) (simp add: assms)+
  then show ?thesis
    by (rule reach_try [OF _ TryLock_step.try_mark [where i = i and k = k]]) simp+
qed

section \<open>Properties\<close>

text \<open>
  C9. Mutual exclusion. Under every interleaving of any number of goroutines that only unlock
  what they hold, no two of them are between taking and returning the token of the same name; in
  particular no two hold the same name.
\<close>

theorem named_mutual_exclusion:
  assumes "reachable False s" and "owns (pcs s i) = Some k" and "owns (pcs s j) = Some k"
  shows "i = j"
  using reachable_conc_inv [OF assms(1)] assms(2,3)
  by (auto simp: conc_inv_def token_inv_def token_ok_def)

theorem named_mutual_exclusion_witness: "(0::nat) = 0 \<and> owns (pcs (held_state ''ns/a'') 0) = Some ''ns/a''"
  using named_mutual_exclusion [OF reachable_held, of "''ns/a''" 0 "''ns/a''" 0] by simp

text \<open>
  C10. Refinement. Every reachable state has an owner map, and every step of the implementation
  is a step of the specification (an acquisition of a free name or a release by its owner) or
  leaves the owner map as it is.
\<close>

theorem NamedMutex_refines_owner_map:
  assumes "reachable False s" and "mstep False i s t" and "owner_map s a"
  shows "owner_map t a \<or> (\<exists>a'. spec_step i a a' \<and> owner_map t a')"
  using assms reachable_conc_inv owner_map_simulation by blast

theorem NamedMutex_refines_owner_map_witness:
  "\<exists>a'. owner_map (goto 0 (Held ''ns/a'') ((took_state ''ns/a'')
      \<lparr>locks := Map.empty(''ns/a'' \<mapsto> \<lparr>token = False, locked = True\<rparr>)\<rparr>)) a'"
proof -
  have "mstep False 0 (took_state ''ns/a'') (goto 0 (Held ''ns/a'') ((took_state ''ns/a'')
      \<lparr>locks := (locks (took_state ''ns/a''))(''ns/a'' \<mapsto> \<lparr>token = False, locked = False\<rparr>\<lparr>locked := True\<rparr>)\<rparr>))"
    unfolding mstep_def by (intro disjI2 disjI1 TryLock_step.try_mark) simp+
  moreover have "owner_map (took_state ''ns/a'') (Map.empty(''ns/a'' \<mapsto> 0))"
    by (auto simp: owner_map_def)
  ultimately show ?thesis
    using NamedMutex_refines_owner_map [OF reachable_took] by fastforce
qed

text \<open>
  C24. Progress. In every reachable state every goroutine can take a step, or waits for
  \<open>n.mu\<close> whose holder can take a step, or waits in \<open>Lock\<close> for a name that is owned.
  \<open>Unlock\<close>, \<open>TryLock\<close> and \<open>IsLocked\<close> therefore never block on a channel.
\<close>

theorem NamedMutex_progress:
  assumes "reachable False s"
  shows "(\<exists>t. mstep False i s t) \<or> (\<exists>j t. mu s = Some j \<and> mstep False j s t) \<or>
         (\<exists>k j. pcs s i = LockRecv k \<and> owns (pcs s j) = Some k)"
  by (rule conc_progress) (rule reachable_conc_inv [OF assms])

theorem NamedMutex_progress_witness:
  "\<exists>j t. mstep False j (held_state ''ns/a'') t"
  using NamedMutex_progress [OF reachable_held [where k = "''ns/a''"], of 0] by auto

text \<open>
  \<open>TryLock\<close> answers false only for a name that another goroutine owns: whether it gives up
  on reading the flag or on finding the channel empty, somebody else has the token at that point.
\<close>

theorem TryLock_fails_only_when_owned:
  assumes "reachable False s" and "TryLock_step i s t"
    and "pcs t i = TryFail k \<or> pcs s i = TrySelect k \<and> pcs t i = Idle"
  shows "\<exists>j. j \<noteq> i \<and> owns (pcs s j) = Some k"
proof -
  have inv: "conc_inv s" by (rule reachable_conc_inv [OF assms(1)])
  have "owns (pcs s i) = None" and "\<exists>j. owns (pcs s j) = Some k"
    using assms(2,3) inv
    by (auto elim!: TryLock_step.cases simp: goto_def conc_inv_def token_inv_def token_ok_def
        flag_inv_def flag_ok_def)
  then show ?thesis by (metis option.distinct(1))
qed

theorem TryLock_fails_only_when_owned_witness:
  "\<exists>j. j \<noteq> (1::nat) \<and> owns (((\<lambda>_. Idle)(0 := Held ''ns/a'', 1 := TryIn ''ns/a'')) j) = Some ''ns/a''"
proof -
  let ?s = "goto 1 (TryIn ''ns/a'') ((held_state ''ns/a'')\<lparr>mu := Some 1\<rparr>)"
  have "reachable False ?s" by (rule run_TryIn [OF reachable_held]) simp_all
  moreover have "TryLock_step 1 ?s (goto 1 (TryFail ''ns/a'') ?s)"
    by (rule try_locked) simp+
  ultimately have "\<exists>j. j \<noteq> 1 \<and> owns (pcs ?s j) = Some ''ns/a''"
    by (rule TryLock_fails_only_when_owned) simp
  then show ?thesis by simp
qed

text \<open>
  C39. What \<open>IsLocked\<close> answers. When it answers true, the name is owned at that moment. The
  converse fails: there is a run in which it answers false for a name that another goroutine has
  taken, because \<open>TryLock\<close> sets the flag only after it has received the token. The informer's check
  can therefore let an event through while the name is owned.
\<close>

theorem IsLocked_misses_taken_name:
  "(\<forall>s t i k. reachable False s \<longrightarrow> IsLocked_step i s t \<longrightarrow>
      pcs t i = IsAnswer k True \<longrightarrow> (\<exists>j. owns (pcs s j) = Some k)) \<and>
   (\<exists>s t. reachable False s \<and> owns (pcs s 0) = Some name \<and> IsLocked_step 1 s t \<and>
      pcs t 1 = IsAnswer name False \<and> owns (pcs t 0) = Some name)"
proof
  have "\<exists>j. owns (pcs s j) = Some k"
    if reach: "reachable False s" and read: "IsLocked_step i s t" "pcs t i = IsAnswer k True" for s t i k
  proof -
    obtain lk where "locks s k = Some lk" "locked lk"
      using read by (auto elim!: IsLocked_step.cases simp: goto_def)
    with reachable_conc_inv [OF reach] show ?thesis
      by (auto simp: conc_inv_def flag_inv_def flag_ok_def)
  qed
  then show "\<forall>s t i k. reachable False s \<longrightarrow> IsLocked_step i s t \<longrightarrow>
      pcs t i = IsAnswer k True \<longrightarrow> (\<exists>j. owns (pcs s j) = Some k)" by blast
  let ?s = "goto 1 (IsRead name) (took_state name)"
  have "reachable False ?s"
    by (rule run_IsRead [OF reachable_took]) simp_all
  moreover have "IsLocked_step 1 ?s (goto 1 (IsAnswer name (locked \<lparr>token = False, locked = False\<rparr>)) ?s)"
    by (rule is_read) simp_all
  ultimately show "\<exists>s t. reachable False s \<and> owns (pcs s 0) = Some name \<and> IsLocked_step 1 s t \<and>
      pcs t 1 = IsAnswer name False \<and> owns (pcs t 0) = Some name"
    by (intro exI [of _ ?s] exI [of _ "goto 1 (IsAnswer name (locked \<lparr>token = False, locked = False\<rparr>)) ?s"])
      simp
qed

theorem IsLocked_misses_taken_name_witness:
  "\<exists>j. owns (pcs (goto 1 (IsRead ''ns/a'') (held_state ''ns/a'')) j) = Some ''ns/a''"
proof -
  let ?s = "goto 1 (IsRead ''ns/a'') (held_state ''ns/a'')"
  have "reachable False ?s" by (rule run_IsRead [OF reachable_held]) simp_all
  moreover have "IsLocked_step 1 ?s (goto 1 (IsAnswer ''ns/a'' (locked \<lparr>token = False, locked = True\<rparr>)) ?s)"
    by (rule is_read) simp_all
  ultimately show ?thesis
    using conjunct1 [OF IsLocked_misses_taken_name [of "''ns/a''"]] by fastforce
qed

text \<open>
  Mutual exclusion rests on the discipline of its callers: \<open>Unlock\<close> does not check who
  calls it, and one call by a goroutine that does not hold the name lets two goroutines hold it.
\<close>

theorem foreign_Unlock_breaks_exclusion:
  "\<exists>s. reachable True s \<and> pcs s 0 = Held k \<and> pcs s 2 = Held k"
proof -
  let ?s = "goto 1 Idle ((held_state k)\<lparr>locks := (locks (held_state k))(k \<mapsto> \<lparr>token = True, locked = False\<rparr>)\<rparr>)"
  have "reachable True ?s"
    by (rule run_rogue_Unlock [OF reachable_held]) simp_all
  then have "reachable True
      (goto 2 (Held k) (?s\<lparr>locks := (locks ?s)(k \<mapsto> \<lparr>token = False, locked = True\<rparr>)\<rparr>))"
    by (rule run_Held_free) simp_all
  moreover have "pcs (goto 2 (Held k) (?s\<lparr>locks := (locks ?s)(k \<mapsto> \<lparr>token = False, locked = True\<rparr>)\<rparr>)) j = Held k"
    if "j = 0 \<or> j = 2" for j using that by auto
  ultimately show ?thesis by blast
qed

end
