(* ===== verification/Loops.thy ===== *)
theory Loops
  imports Prelude
begin

text \<open>
  The endless loops of the program, \<open>for { select ... }\<close>. A loop is given by its body, which
  either leaves the loop with a result (\<open>Inl\<close>) or goes round again in a new state
  (\<open>Inr\<close>); a loop that is never left is \<open>None\<close>. The lemmas turn the recursion into the first
  iteration that leaves the loop, an invariant rule and a termination rule.
\<close>

partial_function (option) for_loop :: "('s \<Rightarrow> 'r + 's) \<Rightarrow> 's \<Rightarrow> 'r option" where
  "for_loop body s = (case body s of Inl r \<Rightarrow> Some r | Inr s' \<Rightarrow> for_loop body s')"

lemma for_loop_exit: "body s = Inl r \<Longrightarrow> for_loop body s = Some r"
  by (simp add: for_loop.simps [of body s])

lemma for_loop_again: "body s = Inr s' \<Longrightarrow> for_loop body s = for_loop body s'"
  by (simp add: for_loop.simps [of body s])

text \<open>The state after \<open>n\<close> iterations that all went round again.\<close>

fun rounds :: "('s \<Rightarrow> 'r + 's) \<Rightarrow> nat \<Rightarrow> 's \<Rightarrow> 's option" where
  "rounds body 0 s = Some s"
| "rounds body (Suc n) s = (case body s of Inl r \<Rightarrow> None | Inr s' \<Rightarrow> rounds body n s')"

lemma for_loop_rounds: "rounds body n s = Some t \<Longrightarrow> for_loop body s = for_loop body t"
proof (induction n arbitrary: s)
  case (Suc n)
  then show ?case by (cases "body s") (auto simp: for_loop_again)
qed simp

lemma for_loop_SomeD:
  assumes "for_loop body s = Some r"
  shows "\<exists>n t. rounds body n s = Some t \<and> body t = Inl r"
proof (rule for_loop.raw_induct [OF _ assms])
  fix loop and body :: "'s \<Rightarrow> 'r + 's" and s r
  assume IH: "\<And>b s y. loop b s = Some y \<Longrightarrow> \<exists>n t. rounds b n s = Some t \<and> b t = Inl y"
    and step: "(case body s of Inl r \<Rightarrow> Some r | Inr s' \<Rightarrow> loop body s') = Some r"
  show "\<exists>n t. rounds body n s = Some t \<and> body t = Inl r"
  proof (cases "body s")
    case (Inl q)
    with step have "rounds body 0 s = Some s \<and> body s = Inl r" by simp
    then show ?thesis by blast
  next
    case (Inr t)
    with step IH obtain n u where "rounds body n t = Some u" "body u = Inl r" by fastforce
    with Inr have "rounds body (Suc n) s = Some u \<and> body u = Inl r" by simp
    then show ?thesis by blast
  qed
qed

lemma for_loop_eq_Some_iff:
  "for_loop body s = Some r \<longleftrightarrow> (\<exists>n t. rounds body n s = Some t \<and> body t = Inl r)"
  using for_loop_SomeD for_loop_rounds for_loop_exit by metis

lemma for_loop_invariant:
  assumes "for_loop body s = Some r" and "P s"
    and step: "\<And>t u. P t \<Longrightarrow> body t = Inr u \<Longrightarrow> P u"
  obtains t where "P t" and "body t = Inl r"
proof -
  have "P t" if "rounds body n s = Some t" for n t
    using that \<open>P s\<close>
  proof (induction n arbitrary: s)
    case (Suc n)
    then show ?case by (cases "body s") (auto dest: step)
  qed simp
  with for_loop_SomeD [OF assms(1)] that show thesis by blast
qed

lemma for_loop_keeps:
  assumes "for_loop body s = Some (r, s')" and "P s"
    and "\<And>t u. P t \<Longrightarrow> body t = Inr u \<Longrightarrow> P u"
    and "\<And>t r u. P t \<Longrightarrow> body t = Inl (r, u) \<Longrightarrow> P u"
  shows "P s'"
  by (rule for_loop_invariant [of body s _ P]) (use assms in blast)+

lemma for_loop_terminates:
  assumes "P s" and "\<And>t u. P t \<Longrightarrow> body t = Inr u \<Longrightarrow> P u \<and> m u < (m t :: nat)"
  shows "\<exists>r. for_loop body s = Some r"
  using assms(1)
proof (induction "m s" arbitrary: s rule: less_induct)
  case less
  show ?case
  proof (cases "body s")
    case (Inl r)
    then show ?thesis by (auto simp: for_loop_exit)
  next
    case (Inr t)
    then show ?thesis using less assms(2) [of s t] by (auto simp: for_loop_again)
  qed
qed

end
