(* ===== verification/KubeTypes.thy ===== *)
theory KubeTypes
  imports GoStrings
begin

text \<open>
  The objects the program works on: its own custom resource (\<open>api/v1\<close>) and the fields of
  Ingress objects it reads or writes. A field that the program only carries along
  (path type and backend of a path, the hosts of a TLS entry, the conditions of a status) is kept
  as one opaque string. Labels are only read, so their map needs no nil; annotations are also
  written, and a write into a nil map would panic, so nil is kept apart there.
\<close>

section \<open>The custom resource\<close>

record NimbleOptiSpec =
  TargetNamespace :: string
  CertificateRenewalThreshold :: i64
  AnnotationRemovalDelay :: i64

record NimbleOptiStatus =
  Conditions :: "string slice"
  IngressPathsForRenewal :: "string slice"

record NimbleOpti =
  no_Namespace :: string
  no_Name :: string
  Spec :: NimbleOptiSpec
  Status :: NimbleOptiStatus

record NimbleOptiList =
  Items :: "NimbleOpti slice"

definition emptyStatus :: NimbleOptiStatus where
  "emptyStatus = \<lparr>Conditions = None, IngressPathsForRenewal = None\<rparr>"

text \<open>\<open>NimbleOpti.Get\<close> ignores its arguments and returns the receiver.\<close>

definition NimbleOpti_Get :: "NimbleOpti \<Rightarrow> string \<Rightarrow> string \<Rightarrow> NimbleOpti" where
  "NimbleOpti_Get this namespace name = this"

text \<open>
  The webhook: the defaulter changes nothing, the validators return no warnings and no error for
  every object.
\<close>

definition Default :: "NimbleOpti \<Rightarrow> NimbleOpti" where
  "Default r = r"

definition ValidateCreate :: "NimbleOpti \<Rightarrow> string list \<times> go_error option" where
  "ValidateCreate r = ([], None)"

definition ValidateUpdate :: "NimbleOpti \<Rightarrow> NimbleOpti \<Rightarrow> string list \<times> go_error option" where
  "ValidateUpdate r old = ([], None)"

definition ValidateDelete :: "NimbleOpti \<Rightarrow> string list \<times> go_error option" where
  "ValidateDelete r = ([], None)"

section \<open>Ingress objects\<close>

record HTTPIngressPath =
  Path :: string
  PathRest :: string

record HTTPIngressRuleValue =
  Paths :: "HTTPIngressPath slice"

record IngressRule =
  Host :: string
  HTTP :: "HTTPIngressRuleValue option"

record IngressTLS =
  Hosts :: string
  SecretName :: string

record Ingress =
  Namespace :: string
  Name :: string
  ResourceVersion :: string
  Labels :: "string \<rightharpoonup> string"
  Annotations :: "(string \<rightharpoonup> string) option"
  Rules :: "IngressRule slice"
  TLS :: "IngressTLS list"

text \<open>The key of an Ingress in the named mutex: \<open>utils.IngressKey\<close>.\<close>

definition IngressKey :: "Ingress \<Rightarrow> string" where
  "IngressKey ing = Namespace ing @ ''/'' @ Name ing"

text \<open>Annotations as a map, nil being empty.\<close>

definition annotations_of :: "Ingress \<Rightarrow> string \<rightharpoonup> string" where
  "annotations_of ing = (case Annotations ing of None \<Rightarrow> Map.empty | Some m \<Rightarrow> m)"

section \<open>What the API server and the runtime hand to the program\<close>

datatype obj = ObjIngress Ingress | ObjOther

datatype watch_type = Added | Modified | Deleted | Bookmark | Error

text \<open>
  What a \<open>select\<close> over a watch channel, a timer and a context delivers: a watch event, the
  closed channel, the timer, or the end of the context.
\<close>

datatype select_event =
    WatchEvent watch_type obj
  | WatchClosed
  | TimerFired
  | ContextDone

section \<open>Keys\<close>

lemma append_sep_inj:
  "c \<notin> set a \<Longrightarrow> c \<notin> set b \<Longrightarrow> a @ c # x = b @ c # y \<longleftrightarrow> a = b \<and> x = y"
proof (induction a arbitrary: b)
  case Nil
  then show ?case by (cases b) auto
next
  case (Cons z a)
  then show ?case by (cases b) auto
qed

section \<open>Properties\<close>

text \<open>
  The lock key identifies the Ingress: for namespaces without a slash, as Kubernetes
  requires, two Ingress objects have the same key exactly when namespace and name agree.
\<close>

lemma IngressKey_identifies:
  assumes "CHR ''/'' \<notin> set (Namespace a)" and "CHR ''/'' \<notin> set (Namespace b)"
  shows "IngressKey a = IngressKey b \<longleftrightarrow> Namespace a = Namespace b \<and> Name a = Name b"
  using assms by (simp add: IngressKey_def append_sep_inj)

definition example_ingress :: Ingress where
  "example_ingress =
     \<lparr>Namespace = ''shop'', Name = ''web'', ResourceVersion = ''7'',
      Labels = [''nimble.opti.adapter/enabled'' \<mapsto> ''true''],
      Annotations = Some [''nginx.ingress.kubernetes.io/backend-protocol'' \<mapsto> ''HTTPS''],
      Rules = Some [\<lparr>Host = ''web.example'',
        HTTP = Some \<lparr>Paths = Some [\<lparr>Path = ''/.well-known/acme-challenge/tok'', PathRest = []\<rparr>]\<rparr>\<rparr>],
      TLS = [\<lparr>Hosts = ''web.example'', SecretName = ''web-tls''\<rparr>]\<rparr>"

end
