(* ===== verification/ClientEnv.thy ===== *)
theory ClientEnv
  imports KubeTypes NamedMutexSeq
begin

text \<open>
  What the watchers call and do not contain: the Kubernetes API clients, the clock, the watch
  machinery, PEM and X.509 decoding. They are the fields of the record \<open>client\<close>, over a type
  \<open>'w\<close> of worlds that stands for the cluster and everything else outside the process. Every call
  takes the world and returns the next one, so other actors (cert-manager, users, the other
  watcher) may have changed the cluster arbitrarily between two calls. Nothing is assumed of these
  functions except where a lemma names a hypothesis.

  The state of a watcher is the world and the named mutex; the operator's adds its metrics.
\<close>

section \<open>The environment\<close>

type_synonym watcher = nat

record 'w client =
  now :: "'w \<Rightarrow> time"
  sleep :: "duration \<Rightarrow> 'w \<Rightarrow> 'w"
  getIngress :: "ctx \<Rightarrow> string \<Rightarrow> string \<Rightarrow> 'w \<Rightarrow> (api_error + Ingress) \<times> 'w"
  updateIngress :: "ctx \<Rightarrow> Ingress \<Rightarrow> 'w \<Rightarrow> (api_error + Ingress) \<times> 'w"
  listIngresses :: "ctx \<Rightarrow> 'w \<Rightarrow> (api_error + Ingress list) \<times> 'w"
  getSecretData :: "ctx \<Rightarrow> string \<Rightarrow> string \<Rightarrow> 'w \<Rightarrow> (api_error + (string \<rightharpoonup> string)) \<times> 'w"
  deleteSecret :: "ctx \<Rightarrow> string \<Rightarrow> string \<Rightarrow> 'w \<Rightarrow> api_error option \<times> 'w"
  getNimbleOpti :: "ctx \<Rightarrow> string \<Rightarrow> string \<Rightarrow> 'w \<Rightarrow> (api_error + NimbleOpti) \<times> 'w"
  createNimbleOpti :: "ctx \<Rightarrow> NimbleOpti \<Rightarrow> 'w \<Rightarrow> (api_error + NimbleOpti) \<times> 'w"
  watchIngresses :: "ctx \<Rightarrow> string \<Rightarrow> string \<Rightarrow> 'w \<Rightarrow> (api_error + watcher) \<times> 'w"
  selectWatch :: "watcher \<Rightarrow> time \<Rightarrow> ctx \<Rightarrow> 'w \<Rightarrow> select_event \<times> 'w"
  stopWatch :: "watcher \<Rightarrow> 'w \<Rightarrow> 'w"
  metaNamespaceKey :: "obj \<Rightarrow> go_error + string"
  pemDecode :: "string \<Rightarrow> (string \<times> string) option"
  parseCertificate :: "string \<Rightarrow> go_error + time"

section \<open>State and calls\<close>

record 'w base =
  world :: 'w
  auditMutex :: nmutex

definition call :: "('w \<Rightarrow> 'a \<times> 'w) \<Rightarrow> (('w, 'x) base_scheme, 'a) prog" where
  "call f = (\<lambda>s. case f (world s) of (a, w) \<Rightarrow> Some (Ret a, s\<lparr>world := w\<rparr>))"

definition sleepP :: "'w client \<Rightarrow> duration \<Rightarrow> (('w, 'x) base_scheme, unit) prog" where
  "sleepP c d = modifyP (\<lambda>s. s\<lparr>world := sleep c d (world s)\<rparr>)"

definition nowP :: "'w client \<Rightarrow> (('w, 'x) base_scheme, time) prog" where
  "nowP c = readP (\<lambda>s. now c (world s))"

definition tryLockP :: "string \<Rightarrow> (('w, 'x) base_scheme, bool) prog" where
  "tryLockP k = (\<lambda>s. case TryLock k (auditMutex s) of (b, m) \<Rightarrow> Some (Ret b, s\<lparr>auditMutex := m\<rparr>))"

definition unlockP :: "string \<Rightarrow> (('w, 'x) base_scheme, unit) prog" where
  "unlockP k = (\<lambda>s. case Unlock k (auditMutex s) of
      None \<Rightarrow> None | Some m \<Rightarrow> Some (Ret (), s\<lparr>auditMutex := m\<rparr>))"

lemma call_apply [simp, prog_simps]:
  "f (world s) = (a, w) \<Longrightarrow> call f s = Some (Ret a, s\<lparr>world := w\<rparr>)"
  by (simp add: call_def)

lemma call_SomeE:
  assumes "call f s = Some (r, s')"
  obtains a w where "f (world s) = (a, w)" and "r = Ret a" and "s' = s\<lparr>world := w\<rparr>"
  using assms by (auto simp: call_def split: prod.splits)

lemma keeps_call: "(\<And>s w. I s \<Longrightarrow> I (s\<lparr>world := w\<rparr>)) \<Longrightarrow> keeps I (call f)"
  by (rule keepsI) (auto elim: call_SomeE)

lemma tryLockP_apply [simp, prog_simps]:
  "TryLock k (auditMutex s) = (b, m) \<Longrightarrow> tryLockP k s = Some (Ret b, s\<lparr>auditMutex := m\<rparr>)"
  by (simp add: tryLockP_def)

lemma unlockP_apply [simp, prog_simps]:
  "Unlock k (auditMutex s) = Some m \<Longrightarrow> unlockP k s = Some (Ret (), s\<lparr>auditMutex := m\<rparr>)"
  by (simp add: unlockP_def)

lemma sleepP_apply [simp, prog_simps]:
  "sleepP c d s = Some (Ret (), s\<lparr>world := sleep c d (world s)\<rparr>)"
  by (simp add: sleepP_def)

lemma nowP_apply [simp, prog_simps]: "nowP c s = Some (Ret (now c (world s)), s)"
  by (simp add: nowP_def)

lemma bindP_calls [simp, prog_simps]:
  "bindP (call g) f s = (case g (world s) of (a, w) \<Rightarrow> f a (s\<lparr>world := w\<rparr>))"
  "bindP (tryLockP k) h s = (case TryLock k (auditMutex s) of (b, m) \<Rightarrow> h b (s\<lparr>auditMutex := m\<rparr>))"
  "bindP (unlockP k) u s = (case Unlock k (auditMutex s) of
      None \<Rightarrow> None | Some m \<Rightarrow> u () (s\<lparr>auditMutex := m\<rparr>))"
  "bindP (sleepP c d) u s = u () (s\<lparr>world := sleep c d (world s)\<rparr>)"
  "bindP (nowP c) q s = q (now c (world s)) s"
  by (simp_all add: bindP_def call_def tryLockP_def unlockP_def split: prod.split option.split)

lemma base_update_idem [simp]: "s\<lparr>world := world s\<rparr> = s" "s\<lparr>auditMutex := auditMutex s\<rparr> = s"
  by simp_all

section \<open>Documented behaviour, for the lemmas that need it\<close>

text \<open>
  The clock: it never runs backwards across an API call, and sleeping takes at least as long as
  asked.
\<close>

definition clock_ok :: "'w client \<Rightarrow> bool" where
  "clock_ok c \<longleftrightarrow>
     (\<forall>d w. 0 \<le> sint d \<longrightarrow> now c w + sint d \<le> now c (sleep c d w)) \<and>
     (\<forall>ctx ns n w. now c w \<le> now c (snd (getIngress c ctx ns n w)))"

lemma clock_ok_sleep: "clock_ok c \<Longrightarrow> 0 \<le> sint d \<Longrightarrow> now c w + sint d \<le> now c (sleep c d w)"
  by (simp add: clock_ok_def)

lemma clock_ok_get: "clock_ok c \<Longrightarrow> getIngress c ctx ns n w = (r, w') \<Longrightarrow> now c w \<le> now c w'"
  unfolding clock_ok_def by (metis snd_conv)

section \<open>The mutex discipline of a state\<close>

definition mutex_ok :: "('w, 'x) base_scheme \<Rightarrow> bool" where
  "mutex_ok s \<longleftrightarrow> nm_inv (auditMutex s)"

definition held_names :: "('w, 'x) base_scheme \<Rightarrow> string set" where
  "held_names s = nm_held (auditMutex s)"

lemma mutex_simps [simp]:
  "mutex_ok (s\<lparr>world := w\<rparr>) = mutex_ok s" "held_names (s\<lparr>world := w\<rparr>) = held_names s"
  by (simp_all add: mutex_ok_def held_names_def)

end
