(* ===== verification/Machines.thy ===== *)
theory Machines
  imports Loops ClientEnv
begin

text \<open>
  Programs as machines of small steps. A machine takes a point of the code and a state to the next
  point and state, one access to shared data at a time; a point without a step is where the program
  has ended (or is blocked). A call is a frame: the caller's point contains the callee's, and the
  callee's result is handed back in a step of its own. \<open>computes\<close> relates a machine to a program
  of the state monad: whatever the program returns in one go, the machine reaches by its steps when
  nobody interferes. The rules follow the combinators of the monad.
\<close>

section \<open>Runs\<close>

type_synonym ('p, 's) machine = "'p \<Rightarrow> 's \<Rightarrow> ('p \<times> 's) option"

inductive runs :: "('p, 's) machine \<Rightarrow> 'p \<Rightarrow> 's \<Rightarrow> 'p \<Rightarrow> 's \<Rightarrow> bool" for m where
  runs_refl: "runs m p s p s"
| runs_step: "m p s = Some (q, t) \<Longrightarrow> runs m q t r u \<Longrightarrow> runs m p s r u"

lemma runs_trans: "runs m p s q t \<Longrightarrow> runs m q t r u \<Longrightarrow> runs m p s r u"
  by (induction rule: runs.induct) (auto intro: runs_step)

lemma runs_one: "m p s = Some (q, t) \<Longrightarrow> runs m p s q t"
  by (auto intro: runs.intros)

text \<open>Running alone, to the end.\<close>

definition run_alone :: "('p, 's) machine \<Rightarrow> 'p \<Rightarrow> 's \<Rightarrow> ('p \<times> 's) option" where
  "run_alone m p s =
     for_loop (\<lambda>(p, s). case m p s of None \<Rightarrow> Inl (p, s) | Some next_point \<Rightarrow> Inr next_point) (p, s)"

lemma run_alone_end: "m p s = None \<Longrightarrow> run_alone m p s = Some (p, s)"
  by (simp add: run_alone_def for_loop_exit)

lemma run_alone_step: "m p s = Some (q, t) \<Longrightarrow> run_alone m p s = run_alone m q t"
  by (simp add: run_alone_def for_loop_again)

lemma run_alone_runs: "runs m p s q t \<Longrightarrow> run_alone m p s = run_alone m q t"
  by (induction rule: runs.induct) (simp_all add: run_alone_step)

section \<open>Call frames\<close>

text \<open>
  \<open>in_frame m result wrap panicked return q\<close> is the caller at the callee's point \<open>q\<close>: a step of
  the callee, or, when the callee is done, the return.
\<close>

definition in_frame ::
  "('q, 's) machine \<Rightarrow> ('q \<Rightarrow> 'r outcome option) \<Rightarrow> ('q \<Rightarrow> 'p) \<Rightarrow> (go_panic \<Rightarrow> 'p) \<Rightarrow> ('r \<Rightarrow> 'p) \<Rightarrow>
   'q \<Rightarrow> 's \<Rightarrow> ('p \<times> 's) option" where
  "in_frame m result wrap panicked return q s =
     (case result q of
        None \<Rightarrow> (case m q s of None \<Rightarrow> None | Some (q', s') \<Rightarrow> Some (wrap q', s'))
      | Some (Ret a) \<Rightarrow> Some (return a, s)
      | Some (Panic p) \<Rightarrow> Some (panicked p, s))"

lemma in_frame_cases:
  assumes "in_frame m result wrap panicked return q s = Some (p', s')"
  obtains (inner) q' where "result q = None" and "m q s = Some (q', s')" and "p' = wrap q'"
  | (returned) a where "result q = Some (Ret a)" and "p' = return a" and "s' = s"
  | (panicked) x where "result q = Some (Panic x)" and "p' = panicked x" and "s' = s"
  using assms by (auto simp: in_frame_def split: option.splits outcome.splits prod.splits)

text \<open>The points at which a machine is done, with what it returns, take no steps.\<close>

definition results_stop :: "('q, 's) machine \<Rightarrow> ('q \<Rightarrow> 'r outcome option) \<Rightarrow> bool" where
  "results_stop m result \<longleftrightarrow> (\<forall>q s. result q \<noteq> None \<longrightarrow> m q s = None)"

section \<open>Machines and programs\<close>

definition computes ::
  "('p, 's) machine \<Rightarrow> 'p \<Rightarrow> ('a outcome \<Rightarrow> 'p) \<Rightarrow> ('s, 'a) prog \<Rightarrow> bool" where
  "computes m p done P \<longleftrightarrow> (\<forall>s r t. P s = Some (r, t) \<longrightarrow> runs m p s (done r) t)"

lemma computesI: "(\<And>s r t. P s = Some (r, t) \<Longrightarrow> runs m p s (done r) t) \<Longrightarrow> computes m p done P"
  by (simp add: computes_def)

lemma computesD: "computes m p done P \<Longrightarrow> P s = Some (r, t) \<Longrightarrow> runs m p s (done r) t"
  by (simp add: computes_def)

lemma computes_ret: "p = done (Ret a) \<Longrightarrow> computes m p done (ret a)"
  by (auto intro!: computesI runs_refl)

lemma computes_panic: "p = done (Panic x) \<Longrightarrow> computes m p done (panic x)"
  by (auto intro!: computesI runs_refl)

lemma computes_silent:
  "(\<And>s. m p s = Some (q, s)) \<Longrightarrow> computes m q done P \<Longrightarrow> computes m p done P"
  by (blast intro: computesI runs_step dest: computesD)

lemma computes_via:
  assumes "\<And>s r t. P s = Some (r, t) \<Longrightarrow> \<exists>q u Q. m p s = Some (q, u) \<and> computes m q done Q \<and> Q u = Some (r, t)"
  shows "computes m p done P"
proof (rule computesI)
  fix s r t
  assume "P s = Some (r, t)"
  then obtain q u Q where "m p s = Some (q, u)" "computes m q done Q" "Q u = Some (r, t)"
    using assms by blast
  then show "runs m p s (done r) t" by (blast intro: runs_step dest: computesD)
qed

lemma computes_call:
  assumes "\<And>s. m p s = (case g (world s) of (a, w) \<Rightarrow> Some (k a, s\<lparr>world := w\<rparr>))"
    and "\<And>a. computes m (k a) done (F a)"
  shows "computes m p done (bindP (call g) F)"
proof (rule computes_via)
  fix s r t
  assume "bindP (call g) F s = Some (r, t)"
  then have "F (fst (g (world s))) (s\<lparr>world := snd (g (world s))\<rparr>) = Some (r, t)"
    by (simp add: split_beta)
  moreover have "m p s = Some (k (fst (g (world s))), s\<lparr>world := snd (g (world s))\<rparr>)"
    by (simp add: assms(1) split_beta)
  ultimately show "\<exists>q u Q. m p s = Some (q, u) \<and> computes m q done Q \<and> Q u = Some (r, t)"
    using assms(2) by blast
qed

lemma computes_tryLock:
  assumes "\<And>s. m p s = (case TryLock key (auditMutex s) of (a, n) \<Rightarrow> Some (k a, s\<lparr>auditMutex := n\<rparr>))"
    and "\<And>a. computes m (k a) done (F a)"
  shows "computes m p done (bindP (tryLockP key) F)"
proof (rule computes_via)
  fix s r t
  assume "bindP (tryLockP key) F s = Some (r, t)"
  then have "F (fst (TryLock key (auditMutex s))) (s\<lparr>auditMutex := snd (TryLock key (auditMutex s))\<rparr>) = Some (r, t)"
    by (simp add: split_beta)
  moreover have "m p s = Some (k (fst (TryLock key (auditMutex s))), s\<lparr>auditMutex := snd (TryLock key (auditMutex s))\<rparr>)"
    by (simp add: assms(1) split_beta)
  ultimately show "\<exists>q u Q. m p s = Some (q, u) \<and> computes m q done Q \<and> Q u = Some (r, t)"
    using assms(2) by blast
qed

lemma computes_unlock:
  assumes "\<And>s. m p s = (case Unlock key (auditMutex s) of
      None \<Rightarrow> None | Some n \<Rightarrow> Some (q, s\<lparr>auditMutex := n\<rparr>))"
    and "computes m q done (F ())"
  shows "computes m p done (bindP (unlockP key) F)"
proof (rule computes_via)
  fix s r t
  assume "bindP (unlockP key) F s = Some (r, t)"
  then obtain n where "Unlock key (auditMutex s) = Some n" "F () (s\<lparr>auditMutex := n\<rparr>) = Some (r, t)"
    by (auto split: option.splits)
  with assms show "\<exists>q u Q. m p s = Some (q, u) \<and> computes m q done Q \<and> Q u = Some (r, t)"
    by (metis option.case(2))
qed

lemma computes_read:
  assumes "\<And>s. m p s = Some (k (f s), s)" and "\<And>a. computes m (k a) done (F a)"
  shows "computes m p done (bindP (readP f) F)"
  by (rule computes_via) (use assms in auto)

lemma computes_modify:
  assumes "\<And>s. m p s = Some (q, f s)" and "computes m q done (F ())"
  shows "computes m p done (bindP (modifyP f) F)"
  by (rule computes_via) (use assms in auto)

lemma computes_now:
  "(\<And>s. m p s = Some (k (now c (world s)), s)) \<Longrightarrow> (\<And>a. computes m (k a) done (F a)) \<Longrightarrow>
   computes m p done (bindP (nowP c) F)"
  unfolding nowP_def by (rule computes_read)

lemma computes_liftO:
  assumes "\<And>x. r = Panic x \<Longrightarrow> p = done (Panic x)" and "\<And>a. r = Ret a \<Longrightarrow> computes m p done (F a)"
  shows "computes m p done (bindP (liftO r) F)"
proof (rule computesI)
  fix s out t
  assume run: "bindP (liftO r) F s = Some (out, t)"
  show "runs m p s (done out) t"
  proof (cases r)
    case (Ret a)
    with run computesD [OF assms(2)] show ?thesis by simp
  next
    case (Panic x)
    with run assms(1) show ?thesis by (auto intro: runs_refl)
  qed
qed

lemma computes_loop:
  assumes "\<And>s r t. body s = Inl (r, t) \<Longrightarrow> runs m p s (done r) t"
    and "\<And>s t. body s = Inr t \<Longrightarrow> runs m p s p t"
  shows "computes m p done (for_loop body)"
proof (rule computesI)
  fix s r t
  assume "for_loop body s = Some (r, t)"
  then obtain u where "runs m p s p u" "body u = Inl (r, t)"
    by (rule for_loop_invariant [where P = "\<lambda>u. runs m p s p u"])
       (auto intro: runs_refl runs_trans assms(2))
  then show "runs m p s (done r) t" by (blast intro: runs_trans assms(1))
qed

text \<open>A call: the callee computes its program in the frame, and the caller goes on with the result.\<close>

lemma runs_frame:
  assumes "runs m q s q' s'" and "results_stop m result"
    and "\<And>q s. M (wrap q) s = in_frame m result wrap panicked return q s"
  shows "runs M (wrap q) s (wrap q') s'"
  using assms(1)
proof (induction rule: runs.induct)
  case (runs_refl p s)
  show ?case by (rule runs.runs_refl)
next
  case (runs_step p s q t r u)
  from runs_step(1) assms(2) have "result p = None" unfolding results_stop_def by fastforce
  with runs_step(1) have "M (wrap p) s = Some (wrap q, t)" by (simp add: assms(3) in_frame_def)
  then show ?case using runs_step(3) by (rule runs.runs_step)
qed

lemma computes_frame:
  assumes callee: "computes m q qdone P" "results_stop m result" "\<And>r. result (qdone r) = Some r"
    and frame: "\<And>q s. M (wrap q) s = in_frame m result wrap panicked return q s"
    and caller: "\<And>a. computes M (return a) done (F a)" "\<And>x. panicked x = done (Panic x)"
  shows "computes M (wrap q) done (bindP P F)"
proof (rule computesI)
  fix s out t
  assume "bindP P F s = Some (out, t)"
  then show "runs M (wrap q) s (done out) t"
  proof (cases rule: bindP_SomeE)
    case (panic x)
    have "runs M (wrap q) s (wrap (qdone (Panic x))) t"
      using runs_frame [OF computesD [OF callee(1) panic(1)] callee(2) frame] .
    moreover have "M (wrap (qdone (Panic x))) t = Some (done (Panic x), t)"
      by (simp add: frame in_frame_def callee(3) caller(2))
    ultimately show ?thesis using panic(2) by (blast intro: runs_trans runs_one)
  next
    case (ret a u)
    have "runs M (wrap q) s (wrap (qdone (Ret a))) u"
      using runs_frame [OF computesD [OF callee(1) ret(1)] callee(2) frame] .
    moreover have "M (wrap (qdone (Ret a))) u = Some (return a, u)"
      by (simp add: frame in_frame_def callee(3))
    ultimately show ?thesis
      using computesD [OF caller(1) ret(2)] by (blast intro: runs_trans runs_step)
  qed
qed

lemma computes_if:
  "(b \<Longrightarrow> computes m p done P) \<Longrightarrow> (\<not> b \<Longrightarrow> computes m p done Q) \<Longrightarrow> computes m p done (if b then P else Q)"
  by simp

lemma computes_sum:
  "(\<And>y. x = Inl y \<Longrightarrow> computes m p done (f y)) \<Longrightarrow> (\<And>y. x = Inr y \<Longrightarrow> computes m p done (g y)) \<Longrightarrow>
   computes m p done (case x of Inl y \<Rightarrow> f y | Inr y \<Rightarrow> g y)"
  by (cases x) simp_all

lemma computes_option:
  "(x = None \<Longrightarrow> computes m p done P) \<Longrightarrow> (\<And>y. x = Some y \<Longrightarrow> computes m p done (f y)) \<Longrightarrow>
   computes m p done (case x of None \<Rightarrow> P | Some y \<Rightarrow> f y)"
  by (cases x) simp_all

lemma computes_prod:
  "(\<And>a b. x = (a, b) \<Longrightarrow> computes m p done (f a b)) \<Longrightarrow> computes m p done (case x of (a, b) \<Rightarrow> f a b)"
  by (cases x) simp

lemma computes_let: "computes m p done (f a) \<Longrightarrow> computes m p done (Let a f)"
  by simp

lemmas computes_splits = computes_if computes_sum computes_option computes_prod computes_let
  computes_ret computes_panic

end
