(* ===== verification/FakeCluster.thy ===== *)
theory FakeCluster
  imports ClientEnv
begin

text \<open>
  A small in-memory cluster with which the concrete runs of the development are computed. It is one
  instance of the environment of \<open>ClientEnv\<close>, not part of the program: objects are kept in maps,
  API calls take one millisecond and fail after the deadline of their context, sleeping advances the
  clock, and a certificate issuer empties the rules of every Ingress at time \<open>solver\<close>. A
  certificate is as many days long as its encoding has characters.
\<close>

record cluster =
  clk :: time
  ings :: "string \<times> string \<rightharpoonup> Ingress"
  secrets :: "string \<times> string \<rightharpoonup> (string \<rightharpoonup> string)"
  optis :: "string \<times> string \<rightharpoonup> NimbleOpti"
  listed :: "(string \<times> string) list"
  solver :: time
  script :: "select_event list"
  stopped :: nat

definition tick :: "cluster \<Rightarrow> cluster" where
  "tick w = w\<lparr>clk := clk w + 1000000\<rparr>"

definition seen :: "cluster \<Rightarrow> Ingress \<Rightarrow> Ingress" where
  "seen w i = (if solver w \<le> clk w then i\<lparr>Rules := Some []\<rparr> else i)"

definition guarded :: "ctx \<Rightarrow> cluster \<Rightarrow> (api_error + 'a) \<times> cluster \<Rightarrow> (api_error + 'a) \<times> cluster" where
  "guarded ctx w r = (if ctxDone ctx (clk w) then (Inl (OtherApiError ''deadline exceeded''), w) else r)"

definition lookup_in :: "(string \<times> string \<rightharpoonup> 'a) \<Rightarrow> string \<Rightarrow> string \<Rightarrow> api_error + 'a" where
  "lookup_in m ns n = (case m (ns, n) of None \<Rightarrow> Inl NotFound | Some x \<Rightarrow> Inr x)"

definition next_event :: "time \<Rightarrow> ctx \<Rightarrow> cluster \<Rightarrow> select_event \<times> cluster" where
  "next_event t ctx w = (case script w of
      e # es \<Rightarrow> (e, (tick w)\<lparr>script := es\<rparr>)
    | [] \<Rightarrow> (if ctxDone ctx t then ContextDone else TimerFired, w\<lparr>clk := max (clk w) t\<rparr>))"

definition fake :: "cluster client" where
  "fake = \<lparr>now = clk,
     sleep = (\<lambda>d w. w\<lparr>clk := clk w + max 0 (sint d)\<rparr>),
     getIngress = (\<lambda>ctx ns n w. guarded ctx w
        (map_sum id (seen w) (lookup_in (ings w) ns n), tick w)),
     updateIngress = (\<lambda>ctx i w. guarded ctx w (case ings w (Namespace i, Name i) of
          None \<Rightarrow> (Inl NotFound, tick w)
        | Some _ \<Rightarrow> (Inr i, (tick w)\<lparr>ings := (ings w)((Namespace i, Name i) \<mapsto> i)\<rparr>))),
     listIngresses = (\<lambda>ctx w. guarded ctx w
        (Inr (map (seen w) (List.map_filter (ings w) (listed w))), tick w)),
     getSecretData = (\<lambda>ctx ns n w. guarded ctx w (lookup_in (secrets w) ns n, tick w)),
     deleteSecret = (\<lambda>ctx ns n w. case secrets w (ns, n) of
          None \<Rightarrow> (Some NotFound, tick w)
        | Some _ \<Rightarrow> (None, (tick w)\<lparr>secrets := (secrets w)((ns, n) := None)\<rparr>)),
     getNimbleOpti = (\<lambda>ctx ns n w. guarded ctx w (lookup_in (optis w) ns n, tick w)),
     createNimbleOpti = (\<lambda>ctx no w. guarded ctx w (case optis w (no_Namespace no, no_Name no) of
          Some _ \<Rightarrow> (Inl AlreadyExists, tick w)
        | None \<Rightarrow> (Inr no, (tick w)\<lparr>optis := (optis w)((no_Namespace no, no_Name no) \<mapsto> no)\<rparr>))),
     watchIngresses = (\<lambda>ctx ns n w. guarded ctx w (Inr 0, tick w)),
     selectWatch = (\<lambda>_. next_event),
     stopWatch = (\<lambda>_ w. w\<lparr>stopped := stopped w + 1\<rparr>),
     metaNamespaceKey = (\<lambda>ob. case ob of ObjIngress i \<Rightarrow> Inr (IngressKey i)
        | ObjOther \<Rightarrow> Inl (NewErr ''object has no meta'')),
     pemDecode = (\<lambda>s. if hasPrefix s ''-----BEGIN CERTIFICATE-----''
        then Some (''CERTIFICATE'', drop 27 s) else None),
     parseCertificate = (\<lambda>s. if s = [] then Inl (NewErr ''malformed certificate'')
        else Inr (86400000000000 * int (length s)))\<rparr>"

definition small_cluster :: cluster where
  "small_cluster = \<lparr>clk = 0,
     ings = [(''shop'', ''web'') \<mapsto> example_ingress],
     secrets = [(''shop'', ''web-tls'') \<mapsto> [''tls.crt'' \<mapsto> ''0123456789'']],
     optis = Map.empty,
     listed = [(''shop'', ''web'')],
     solver = 2500000000,
     script = [],
     stopped = 0\<rparr>"

definition start_state :: "cluster base" where
  "start_state = \<lparr>world = small_cluster, auditMutex = NewNamedMutex\<rparr>"

lemmas fake_simps = fake_def small_cluster_def start_state_def tick_def seen_def guarded_def
  lookup_in_def next_event_def ctxDone_def background_def

lemma fake_clock_ok [simp]: "clock_ok fake"
  by (auto simp: clock_ok_def fake_simps)

lemma start_state_mutex [simp]: "mutex_ok start_state" "held_names start_state = {}"
  using nm.inv_new nm.held_new by (simp_all add: mutex_ok_def held_names_def start_state_def)

lemma start_state_world [simp]: "world start_state = small_cluster"
  by (simp add: start_state_def)

lemma start_state_fetch:
  "getIngress fake background ''shop'' ''web'' small_cluster =
     (Inr example_ingress, tick small_cluster)"
  by (simp add: fake_simps)

lemma start_state_fetch_missing:
  "getIngress fake background ''shop'' ''api'' small_cluster = (Inl NotFound, tick small_cluster)"
  by (simp add: fake_simps)

end
