(* ===== verification/Annotations.thy ===== *)
theory Annotations
  imports FakeCluster
begin

text \<open>
  \<open>internal/controller/annotations.go\<close>: removing and adding the annotation
  \<open>nginx.ingress.kubernetes.io/backend-protocol: HTTPS\<close> of an Ingress. Both take the lock of the
  Ingress, fetch its last version, edit the annotations, register the deferred unlock and update
  the object. The deferred unlock is registered after the fetch, so the early return on a failed
  fetch leaves the lock held.

  The locale \<open>annotation_editor\<close> is the contract of one such operation; \<open>annotation_pair\<close>
  puts a remover and an adder that share the locks together. The cron job has its own copies of
  the operations and interprets the same locales.
\<close>

section \<open>The operations\<close>

definition backendProtocol :: string where
  "backendProtocol = ''nginx.ingress.kubernetes.io/backend-protocol''"

definition removeHTTPSAnnotation ::
  "'w client \<Rightarrow> ctx \<Rightarrow> Ingress \<Rightarrow> (('w, 'x) base_scheme, go_error option \<times> Ingress) prog" where
  "removeHTTPSAnnotation c ctx ing =
     (let key = IngressKey ing in
      bindP (tryLockP key) (\<lambda>isLock.
        if isLock then
          bindP (call (getIngress c ctx (Namespace ing) (Name ing))) (\<lambda>got.
            case got of
              Inl err \<Rightarrow> ret (Some (ApiErr err), ing)
            | Inr ing1 \<Rightarrow>
                let ing2 = ing1\<lparr>Annotations := map_option (\<lambda>m. m(backendProtocol := None)) (Annotations ing1)\<rparr>
                in bindP (call (updateIngress c ctx ing2)) (\<lambda>updated.
                     bindP (unlockP key) (\<lambda>_.
                       case updated of
                         Inl err \<Rightarrow> ret (Some (ApiErr err), ing2)
                       | Inr ing3 \<Rightarrow> ret (None, ing3))))
        else
          ret (Some (NewErr (''key '' @ key @ '' is locked, and it should be unlocked'')), ing)))"

definition addHTTPSAnnotation ::
  "'w client \<Rightarrow> ctx \<Rightarrow> Ingress \<Rightarrow> (('w, 'x) base_scheme, go_error option \<times> Ingress) prog" where
  "addHTTPSAnnotation c ctx ing =
     (let key = IngressKey ing in
      bindP (tryLockP key) (\<lambda>isLock.
        if isLock then
          bindP (call (getIngress c ctx (Namespace ing) (Name ing))) (\<lambda>got.
            case got of
              Inl err \<Rightarrow> ret (Some (ApiErr err), ing)
            | Inr ing1 \<Rightarrow>
                let m = (case Annotations ing1 of None \<Rightarrow> Map.empty | Some m \<Rightarrow> m);
                    ing2 = ing1\<lparr>Annotations := Some (m(backendProtocol \<mapsto> ''HTTPS''))\<rparr>
                in bindP (call (updateIngress c ctx ing2)) (\<lambda>updated.
                     bindP (unlockP key) (\<lambda>_.
                       case updated of
                         Inl err \<Rightarrow> ret (Some (ApiErr err), ing2)
                       | Inr ing3 \<Rightarrow> ret (None, ing3))))
        else
          ret (Some (NewErr (''key '' @ key @ '' is locked, and should be unlocked'')), ing)))"

section \<open>The contract of an annotation operation\<close>

type_synonym annotations = "(string \<rightharpoonup> string) option"

locale annotation_editor =
  fixes edit :: "'w client \<Rightarrow> ctx \<Rightarrow> Ingress \<Rightarrow>
      (('w, 'x) base_scheme, go_error option \<times> Ingress) prog"
    and change :: "annotations \<Rightarrow> annotations"
    and refusal :: "string \<Rightarrow> string"
  assumes edit_locked:
      "mutex_ok s \<Longrightarrow> IngressKey ing \<in> held_names s \<Longrightarrow>
       edit c ctx ing s = Some (Ret (Some (NewErr (refusal (IngressKey ing))), ing), s)"
    and edit_get_fails:
      "mutex_ok s \<Longrightarrow> IngressKey ing \<notin> held_names s \<Longrightarrow>
       getIngress c ctx (Namespace ing) (Name ing) (world s) = (Inl err, w) \<Longrightarrow>
       \<exists>m. edit c ctx ing s = Some (Ret (Some (ApiErr err), ing), s\<lparr>world := w, auditMutex := m\<rparr>) \<and>
           nm_inv m \<and> nm_held m = insert (IngressKey ing) (held_names s)"
    and edit_updates:
      "mutex_ok s \<Longrightarrow> IngressKey ing \<notin> held_names s \<Longrightarrow>
       getIngress c ctx (Namespace ing) (Name ing) (world s) = (Inr ing1, w1) \<Longrightarrow>
       ing2 = ing1\<lparr>Annotations := change (Annotations ing1)\<rparr> \<Longrightarrow>
       updateIngress c ctx ing2 w1 = (res, w2) \<Longrightarrow>
       \<exists>m. edit c ctx ing s =
             Some (Ret (case res of Inl err \<Rightarrow> (Some (ApiErr err), ing2) | Inr ing3 \<Rightarrow> (None, ing3)),
                   s\<lparr>world := w2, auditMutex := m\<rparr>) \<and>
           nm_inv m \<and> nm_held m = held_names s"
begin

lemma edit_cases:
  assumes "mutex_ok s"
  obtains (locked) "IngressKey ing \<in> held_names s"
      and "edit c ctx ing s = Some (Ret (Some (NewErr (refusal (IngressKey ing))), ing), s)"
  | (get_fails) err w m where "IngressKey ing \<notin> held_names s"
      and "getIngress c ctx (Namespace ing) (Name ing) (world s) = (Inl err, w)"
      and "edit c ctx ing s = Some (Ret (Some (ApiErr err), ing), s\<lparr>world := w, auditMutex := m\<rparr>)"
      and "nm_inv m" and "nm_held m = insert (IngressKey ing) (held_names s)"
  | (update_fails) ing1 w1 err w2 m where "IngressKey ing \<notin> held_names s"
      and "getIngress c ctx (Namespace ing) (Name ing) (world s) = (Inr ing1, w1)"
      and "updateIngress c ctx (ing1\<lparr>Annotations := change (Annotations ing1)\<rparr>) w1 = (Inl err, w2)"
      and "edit c ctx ing s = Some (Ret (Some (ApiErr err),
             ing1\<lparr>Annotations := change (Annotations ing1)\<rparr>), s\<lparr>world := w2, auditMutex := m\<rparr>)"
      and "nm_inv m" and "nm_held m = held_names s"
  | (edited) ing1 w1 ing3 w2 m where "IngressKey ing \<notin> held_names s"
      and "getIngress c ctx (Namespace ing) (Name ing) (world s) = (Inr ing1, w1)"
      and "updateIngress c ctx (ing1\<lparr>Annotations := change (Annotations ing1)\<rparr>) w1 = (Inr ing3, w2)"
      and "edit c ctx ing s = Some (Ret (None, ing3), s\<lparr>world := w2, auditMutex := m\<rparr>)"
      and "nm_inv m" and "nm_held m = held_names s"
proof (cases "IngressKey ing \<in> held_names s")
  case True
  then show thesis using edit_locked [OF assms] locked by blast
next
  case False
  obtain got w1 where get: "getIngress c ctx (Namespace ing) (Name ing) (world s) = (got, w1)"
    by (cases "getIngress c ctx (Namespace ing) (Name ing) (world s)")
  show thesis
  proof (cases got)
    case (Inl err)
    then show thesis using edit_get_fails [OF assms False] get_fails False get by blast
  next
    case (Inr ing1)
    obtain res w2 where upd:
      "updateIngress c ctx (ing1\<lparr>Annotations := change (Annotations ing1)\<rparr>) w1 = (res, w2)"
      by (cases "updateIngress c ctx (ing1\<lparr>Annotations := change (Annotations ing1)\<rparr>) w1")
    note step = edit_updates [OF assms False get [unfolded Inr] refl upd]
    show thesis
    proof (cases res)
      case (Inl err)
      with step obtain m where
        "edit c ctx ing s = Some (Ret (Some (ApiErr err),
           ing1\<lparr>Annotations := change (Annotations ing1)\<rparr>), s\<lparr>world := w2, auditMutex := m\<rparr>)"
        "nm_inv m" "nm_held m = held_names s" by auto
      then show thesis using update_fails False get [unfolded Inr] upd [unfolded Inl] by blast
    next
      case (Inr ing3)
      with step obtain m where
        "edit c ctx ing s = Some (Ret (None, ing3), s\<lparr>world := w2, auditMutex := m\<rparr>)"
        "nm_inv m" "nm_held m = held_names s" by auto
      then show thesis using edited False get [unfolded \<open>got = Inr ing1\<close>] upd [unfolded Inr] by blast
    qed
  qed
qed

text \<open>The operation always returns, keeps the mutex consistent, and leaves no lock behind when it succeeds.\<close>

lemma edit_returns:
  assumes "mutex_ok s"
  obtains e ing' w m where
    "edit c ctx ing s = Some (Ret (e, ing'), s\<lparr>world := w, auditMutex := m\<rparr>)" and "nm_inv m"
    and "held_names s \<subseteq> nm_held m"
  using assms
proof (cases rule: edit_cases [where ing = ing and c = c and ctx = ctx])
  case locked
  with assms show thesis
    using that [of "Some (NewErr (refusal (IngressKey ing)))" ing "auditMutex s" "world s"]
    by (simp add: mutex_ok_def held_names_def)
qed (use that in blast)+

lemma edit_success:
  assumes "mutex_ok s" and "edit c ctx ing s = Some (Ret (None, ing'), s')"
  obtains ing1 w1 w2 m where "IngressKey ing \<notin> held_names s"
    and "getIngress c ctx (Namespace ing) (Name ing) (world s) = (Inr ing1, w1)"
    and "updateIngress c ctx (ing1\<lparr>Annotations := change (Annotations ing1)\<rparr>) w1 = (Inr ing', w2)"
    and "s' = s\<lparr>world := w2, auditMutex := m\<rparr>" and "nm_inv m" and "nm_held m = held_names s"
  by (cases rule: edit_cases [OF assms(1), of ing c ctx]) (use assms(2) that in auto)

lemma edit_keeps_mutex: "keeps mutex_ok (edit c ctx ing)"
proof (rule keepsI)
  fix s r s'
  assume "mutex_ok s" and run: "edit c ctx ing s = Some (r, s')"
  then obtain e ing' w m where
    "edit c ctx ing s = Some (Ret (e, ing'), s\<lparr>world := w, auditMutex := m\<rparr>)" "nm_inv m"
    using edit_returns by metis
  with run show "mutex_ok s'" by (auto simp: mutex_ok_def)
qed

end

locale annotation_pair =
  remove: annotation_editor remove rem_change rem_refusal +
  add: annotation_editor add add_change add_refusal
  for remove :: "'w client \<Rightarrow> ctx \<Rightarrow> Ingress \<Rightarrow>
      (('w, 'x) base_scheme, go_error option \<times> Ingress) prog"
    and rem_change rem_refusal
    and add :: "'w client \<Rightarrow> ctx \<Rightarrow> Ingress \<Rightarrow>
      (('w, 'x) base_scheme, go_error option \<times> Ingress) prog"
    and add_change add_refusal +
  assumes remove_deletes: "rem_change a = map_option (\<lambda>m. m(backendProtocol := None)) a"
    and add_puts: "add_change a =
      Some ((case a of None \<Rightarrow> Map.empty | Some m \<Rightarrow> m)(backendProtocol \<mapsto> ''HTTPS''))"
begin

text \<open>Adding after removing is the same as adding, whatever the annotations were.\<close>

lemma add_after_remove: "add_change (rem_change a) = add_change a"
  by (cases a) (simp_all add: remove_deletes add_puts)

text \<open>
  A fetch that fails in either operation leaves the lock of the Ingress held, so that both
  operations refuse from then on, and change nothing.
\<close>

lemma stuck_after_failed_fetch:
  assumes "mutex_ok s" and "IngressKey ing \<notin> held_names s"
    and "getIngress c ctx (Namespace ing) (Name ing) (world s) = (Inl err, w)"
  obtains s' where "remove c ctx ing s = Some (Ret (Some (ApiErr err), ing), s')"
    and "IngressKey ing \<in> held_names s'"
    and "\<And>c' ctx'. remove c' ctx' ing s' = Some (Ret (Some (NewErr (rem_refusal (IngressKey ing))), ing), s')"
    and "\<And>c' ctx'. add c' ctx' ing s' = Some (Ret (Some (NewErr (add_refusal (IngressKey ing))), ing), s')"
proof -
  obtain m where m:
    "remove c ctx ing s = Some (Ret (Some (ApiErr err), ing), s\<lparr>world := w, auditMutex := m\<rparr>)"
    "nm_inv m" "nm_held m = insert (IngressKey ing) (held_names s)"
    using remove.edit_get_fails [OF assms] by blast
  let ?s = "s\<lparr>world := w, auditMutex := m\<rparr>"
  have "mutex_ok ?s" "IngressKey ing \<in> held_names ?s"
    using m by (simp_all add: mutex_ok_def held_names_def)
  then show thesis
    using that [of ?s] m(1) remove.edit_locked [of ?s ing] add.edit_locked [of ?s ing] by blast
qed

end

section \<open>The operator's operations meet the contract\<close>

definition remove_refusal :: "string \<Rightarrow> string" where
  "remove_refusal k = ''key '' @ k @ '' is locked, and it should be unlocked''"

definition add_refusal :: "string \<Rightarrow> string" where
  "add_refusal k = ''key '' @ k @ '' is locked, and should be unlocked''"

definition without_https :: "annotations \<Rightarrow> annotations" where
  "without_https = map_option (\<lambda>m. m(backendProtocol := None))"

definition with_https :: "annotations \<Rightarrow> annotations" where
  "with_https a = Some ((case a of None \<Rightarrow> Map.empty | Some m \<Rightarrow> m)(backendProtocol \<mapsto> ''HTTPS''))"

lemma held_acquire:
  assumes "mutex_ok s" and "k \<notin> held_names s"
  obtains m1 m2 where "TryLock k (auditMutex s) = (True, m1)"
    and "nm_inv m1" and "nm_held m1 = insert k (held_names s)"
    and "Unlock k m1 = Some m2" and "nm_inv m2" and "nm_held m2 = held_names s"
  using assms nm.bracket [of "auditMutex s" k] by (auto simp: mutex_ok_def held_names_def)

lemma held_refuse:
  "mutex_ok s \<Longrightarrow> k \<in> held_names s \<Longrightarrow> TryLock k (auditMutex s) = (False, auditMutex s)"
  by (simp add: mutex_ok_def held_names_def nm.acquire_taken)

interpretation op_annotations: annotation_pair removeHTTPSAnnotation without_https remove_refusal
  addHTTPSAnnotation with_https add_refusal
proof
  fix s :: "('w, 'x) base_scheme" and ing c ctx
  assume ok: "mutex_ok s"
  show "IngressKey ing \<in> held_names s \<Longrightarrow> removeHTTPSAnnotation c ctx ing s =
      Some (Ret (Some (NewErr (remove_refusal (IngressKey ing))), ing), s)"
    and "IngressKey ing \<in> held_names s \<Longrightarrow> addHTTPSAnnotation c ctx ing s =
      Some (Ret (Some (NewErr (add_refusal (IngressKey ing))), ing), s)"
    by (simp_all add: removeHTTPSAnnotation_def addHTTPSAnnotation_def held_refuse [OF ok]
        remove_refusal_def add_refusal_def Let_def)
  assume free: "IngressKey ing \<notin> held_names s"
  obtain m1 m2 where m: "TryLock (IngressKey ing) (auditMutex s) = (True, m1)"
      "nm_inv m1" "nm_held m1 = insert (IngressKey ing) (held_names s)"
      "Unlock (IngressKey ing) m1 = Some m2" "nm_inv m2" "nm_held m2 = held_names s"
    using ok free by (rule held_acquire)
  {
    fix err w
    assume "getIngress c ctx (Namespace ing) (Name ing) (world s) = (Inl err, w)"
    with m show "\<exists>m. removeHTTPSAnnotation c ctx ing s =
          Some (Ret (Some (ApiErr err), ing), s\<lparr>world := w, auditMutex := m\<rparr>) \<and>
        nm_inv m \<and> nm_held m = insert (IngressKey ing) (held_names s)"
      and "\<exists>m. addHTTPSAnnotation c ctx ing s =
          Some (Ret (Some (ApiErr err), ing), s\<lparr>world := w, auditMutex := m\<rparr>) \<and>
        nm_inv m \<and> nm_held m = insert (IngressKey ing) (held_names s)"
      by (auto simp: removeHTTPSAnnotation_def addHTTPSAnnotation_def Let_def intro!: exI [of _ m1])
  }
  fix ing1 w1 ing2 res w2
  assume get: "getIngress c ctx (Namespace ing) (Name ing) (world s) = (Inr ing1, w1)"
    and upd: "updateIngress c ctx ing2 w1 = (res, w2)"
  show "ing2 = ing1\<lparr>Annotations := without_https (Annotations ing1)\<rparr> \<Longrightarrow>
      \<exists>m. removeHTTPSAnnotation c ctx ing s =
          Some (Ret (case res of Inl err \<Rightarrow> (Some (ApiErr err), ing2) | Inr ing3 \<Rightarrow> (None, ing3)),
            s\<lparr>world := w2, auditMutex := m\<rparr>) \<and> nm_inv m \<and> nm_held m = held_names s"
    using m get upd
    by (auto simp: removeHTTPSAnnotation_def without_https_def Let_def intro!: exI [of _ m2] split: sum.splits)
  show "ing2 = ing1\<lparr>Annotations := with_https (Annotations ing1)\<rparr> \<Longrightarrow>
      \<exists>m. addHTTPSAnnotation c ctx ing s =
          Some (Ret (case res of Inl err \<Rightarrow> (Some (ApiErr err), ing2) | Inr ing3 \<Rightarrow> (None, ing3)),
            s\<lparr>world := w2, auditMutex := m\<rparr>) \<and> nm_inv m \<and> nm_held m = held_names s"
    using m get upd
    by (auto simp: addHTTPSAnnotation_def with_https_def Let_def intro!: exI [of _ m2] split: sum.splits)
qed (simp_all add: without_https_def with_https_def)

lemmas remove_cases = op_annotations.remove.edit_cases
lemmas add_cases = op_annotations.add.edit_cases

section \<open>Properties\<close>

text \<open>
  C28. When \<open>removeHTTPSAnnotation\<close> succeeds, it has fetched the last version of the Ingress and
  sent back exactly that version without the backend-protocol annotation: every other annotation
  and every other field is as fetched. The caller's object is the server's answer, and the set of
  held locks is as before.
\<close>

theorem removeHTTPSAnnotation_edits_last_version:
  assumes "mutex_ok s" and "removeHTTPSAnnotation c ctx ing s = Some (Ret (None, ing'), s')"
  shows "\<exists>last w sent. getIngress c ctx (Namespace ing) (Name ing) (world s) = (Inr last, w) \<and>
     updateIngress c ctx sent w = (Inr ing', world s') \<and>
     annotations_of sent = (annotations_of last)(backendProtocol := None) \<and>
     sent\<lparr>Annotations := Annotations last\<rparr> = last \<and>
     mutex_ok s' \<and> held_names s' = held_names s"
proof -
  obtain ing1 w1 w2 m where
    "getIngress c ctx (Namespace ing) (Name ing) (world s) = (Inr ing1, w1)"
    "updateIngress c ctx (ing1\<lparr>Annotations := without_https (Annotations ing1)\<rparr>) w1 = (Inr ing', w2)"
    "s' = s\<lparr>world := w2, auditMutex := m\<rparr>" "nm_inv m" "nm_held m = held_names s"
    using op_annotations.remove.edit_success [OF assms] by metis
  then show ?thesis
    by (intro exI [of _ ing1] exI [of _ w1] exI [of _ "ing1\<lparr>Annotations := without_https (Annotations ing1)\<rparr>"])
       (auto simp: annotations_of_def without_https_def mutex_ok_def held_names_def split: option.split)
qed

theorem removeHTTPSAnnotation_edits_last_version_witness:
  "\<exists>last w sent. getIngress fake background ''shop'' ''web'' small_cluster = (Inr last, w) \<and>
     annotations_of sent backendProtocol = None \<and> sent\<lparr>Annotations := Annotations last\<rparr> = last \<and>
     (\<exists>ing'. fst (updateIngress fake background sent w) = Inr ing')"
proof -
  have "\<exists>ing' s'. removeHTTPSAnnotation fake background example_ingress start_state = Some (Ret (None, ing'), s')"
    by (simp add: removeHTTPSAnnotation_def fake_simps Let_def nm_defs IngressKey_def example_ingress_def)
  then obtain ing' s' where
    "removeHTTPSAnnotation fake background example_ingress start_state = Some (Ret (None, ing'), s')" by blast
  from removeHTTPSAnnotation_edits_last_version [OF start_state_mutex(1) this]
  obtain last w sent where "getIngress fake background ''shop'' ''web'' small_cluster = (Inr last, w)"
    "updateIngress fake background sent w = (Inr ing', world s')"
    "annotations_of sent = (annotations_of last)(backendProtocol := None)"
    "sent\<lparr>Annotations := Annotations last\<rparr> = last"
    by (auto simp: example_ingress_def)
  then show ?thesis by (intro exI [of _ last] exI [of _ w] exI [of _ sent]) simp
qed

text \<open>
  When \<open>addHTTPSAnnotation\<close> succeeds, it has fetched the last version of the Ingress and sent
  back exactly that version with the backend-protocol annotation set to HTTPS, whether the
  annotations were nil or not; the set of held locks is as before.
\<close>

lemma addHTTPSAnnotation_edits_last_version:
  assumes "mutex_ok s" and "addHTTPSAnnotation c ctx ing s = Some (Ret (None, ing'), s')"
  shows "\<exists>last w sent. getIngress c ctx (Namespace ing) (Name ing) (world s) = (Inr last, w) \<and>
     updateIngress c ctx sent w = (Inr ing', world s') \<and>
     annotations_of sent = (annotations_of last)(backendProtocol \<mapsto> ''HTTPS'') \<and>
     sent\<lparr>Annotations := Annotations last\<rparr> = last \<and>
     mutex_ok s' \<and> held_names s' = held_names s"
proof -
  obtain ing1 w1 w2 m where
    "getIngress c ctx (Namespace ing) (Name ing) (world s) = (Inr ing1, w1)"
    "updateIngress c ctx (ing1\<lparr>Annotations := with_https (Annotations ing1)\<rparr>) w1 = (Inr ing', w2)"
    "s' = s\<lparr>world := w2, auditMutex := m\<rparr>" "nm_inv m" "nm_held m = held_names s"
    using op_annotations.add.edit_success [OF assms] by metis
  then show ?thesis
    by (intro exI [of _ ing1] exI [of _ w1] exI [of _ "ing1\<lparr>Annotations := with_https (Annotations ing1)\<rparr>"])
       (auto simp: annotations_of_def with_https_def mutex_ok_def held_names_def split: option.split)
qed

text \<open>
  C11. The lock of an Ingress survives \<open>removeHTTPSAnnotation\<close> in exactly one case: the lock was
  free and the fetch failed. In every other case, a failed update included, the operation returns
  with the locks as it found them.
\<close>

theorem removeHTTPSAnnotation_lock_outcome:
  assumes "mutex_ok s"
  shows "\<exists>e ing' s'. removeHTTPSAnnotation c ctx ing s = Some (Ret (e, ing'), s') \<and> mutex_ok s' \<and>
     held_names s' =
       (if IngressKey ing \<notin> held_names s \<and>
           isl (fst (getIngress c ctx (Namespace ing) (Name ing) (world s)))
        then insert (IngressKey ing) (held_names s) else held_names s)"
  using assms
  by (cases rule: remove_cases [where ing = ing and c = c and ctx = ctx])
     (use assms in \<open>simp_all add: mutex_ok_def held_names_def\<close>)

theorem removeHTTPSAnnotation_lock_outcome_witness:
  "\<exists>e ing' s'. removeHTTPSAnnotation fake background (example_ingress\<lparr>Name := ''api''\<rparr>) start_state
      = Some (Ret (e, ing'), s') \<and> held_names s' = {''shop/api''}"
  using removeHTTPSAnnotation_lock_outcome
    [of start_state fake background "example_ingress\<lparr>Name := ''api''\<rparr>"]
  by (auto simp: example_ingress_def IngressKey_def start_state_fetch_missing)

text \<open>
  C27. After one failed fetch in \<open>removeHTTPSAnnotation\<close> the Ingress can no longer be processed:
  whatever the cluster answers later, both operations on it refuse with the message that the key
  is locked, without any API call.
\<close>

theorem failed_fetch_blocks_ingress:
  assumes "mutex_ok s" and "IngressKey ing \<notin> held_names s"
    and "getIngress c ctx (Namespace ing) (Name ing) (world s) = (Inl err, w)"
  shows "\<exists>s'. removeHTTPSAnnotation c ctx ing s = Some (Ret (Some (ApiErr err), ing), s') \<and>
     (\<forall>c' ctx' v. removeHTTPSAnnotation c' ctx' ing (s'\<lparr>world := v\<rparr>) =
        Some (Ret (Some (NewErr (remove_refusal (IngressKey ing))), ing), s'\<lparr>world := v\<rparr>)) \<and>
     (\<forall>c' ctx' v. addHTTPSAnnotation c' ctx' ing (s'\<lparr>world := v\<rparr>) =
        Some (Ret (Some (NewErr (add_refusal (IngressKey ing))), ing), s'\<lparr>world := v\<rparr>))"
proof -
  obtain s' where s': "removeHTTPSAnnotation c ctx ing s = Some (Ret (Some (ApiErr err), ing), s')"
    "IngressKey ing \<in> held_names s'"
    using op_annotations.stuck_after_failed_fetch [OF assms] by metis
  moreover have "mutex_ok s'"
    using keepsD [OF op_annotations.remove.edit_keeps_mutex assms(1) s'(1)] .
  ultimately show ?thesis
    by (intro exI [of _ s'])
       (simp add: op_annotations.remove.edit_locked op_annotations.add.edit_locked)
qed

theorem failed_fetch_blocks_ingress_witness:
  "\<exists>s'. removeHTTPSAnnotation fake background (example_ingress\<lparr>Name := ''api''\<rparr>) start_state
      = Some (Ret (Some (ApiErr NotFound), example_ingress\<lparr>Name := ''api''\<rparr>), s') \<and>
     addHTTPSAnnotation fake background (example_ingress\<lparr>Name := ''api''\<rparr>) s' =
       Some (Ret (Some (NewErr ''key shop/api is locked, and should be unlocked''),
         example_ingress\<lparr>Name := ''api''\<rparr>), s')"
proof -
  let ?i = "example_ingress\<lparr>Name := ''api''\<rparr>"
  have get: "getIngress fake background (Namespace ?i) (Name ?i) (world start_state) =
      (Inl NotFound, tick small_cluster)"
    using start_state_fetch_missing by (simp add: example_ingress_def)
  have key: "add_refusal (IngressKey ?i) = ''key shop/api is locked, and should be unlocked''"
    by (simp add: add_refusal_def IngressKey_def example_ingress_def)
  from failed_fetch_blocks_ingress [OF start_state_mutex(1) _ get] obtain s' where
    "removeHTTPSAnnotation fake background ?i start_state = Some (Ret (Some (ApiErr NotFound), ?i), s')"
    "\<And>v. addHTTPSAnnotation fake background ?i (s'\<lparr>world := v\<rparr>) =
        Some (Ret (Some (NewErr (add_refusal (IngressKey ?i))), ?i), s'\<lparr>world := v\<rparr>)"
    by auto
  from this(1) this(2) [of "world s'"] show ?thesis unfolding key by auto
qed

end
