(* ===== verification/WatchLoops.thy ===== *)
theory WatchLoops
  imports Loops FakeCluster
begin

text \<open>
  What the two programs wait for, and the contracts of the waiting routines. An Ingress \<open>has
  challenge\<close> when one of its paths contains \<open>.well-known/acme-challenge\<close>. The scans over the
  rules stop at the first rule that decides: one without an HTTP part (a nil dereference) or one
  with a challenge path. The locales state this for a scan, and for a routine that polls the
  Ingress until the challenge is gone or its deadline has passed; operator and cron job interpret
  them on their own copies.
\<close>

section \<open>Challenge paths\<close>

definition challenge_path :: string where
  "challenge_path = ''.well-known/acme-challenge''"

definition rule_has_challenge :: "IngressRule \<Rightarrow> bool" where
  "rule_has_challenge r \<longleftrightarrow> (case HTTP r of None \<Rightarrow> False
     | Some v \<Rightarrow> (\<exists>p \<in> set (elems (Paths v)). sublist challenge_path (Path p)))"

definition has_challenge :: "Ingress \<Rightarrow> bool" where
  "has_challenge ing \<longleftrightarrow> (\<exists>r \<in> set (elems (Rules ing)). rule_has_challenge r)"

definition http_rules :: "Ingress \<Rightarrow> bool" where
  "http_rules ing \<longleftrightarrow> (\<forall>r \<in> set (elems (Rules ing)). HTTP r \<noteq> None)"

definition first_decisive :: "IngressRule list \<Rightarrow> bool outcome" where
  "first_decisive rs =
     (case dropWhile (\<lambda>r. HTTP r \<noteq> None \<and> \<not> rule_has_challenge r) rs of
        [] \<Rightarrow> Ret False
      | r # _ \<Rightarrow> if HTTP r = None then Panic NilDereference else Ret True)"

lemma first_decisive_simps [simp]:
  "first_decisive [] = Ret False"
  "first_decisive (r # rs) =
     (if HTTP r = None then Panic NilDereference
      else if rule_has_challenge r then Ret True else first_decisive rs)"
  by (simp_all add: first_decisive_def)

lemma first_decisive_http:
  "\<forall>r \<in> set rs. HTTP r \<noteq> None \<Longrightarrow> first_decisive rs = Ret (\<exists>r \<in> set rs. rule_has_challenge r)"
  by (induction rs) auto

lemma first_decisive_Ret:
  "first_decisive rs = Ret b \<Longrightarrow> b \<longleftrightarrow> (\<exists>r \<in> set rs. rule_has_challenge r)"
  by (induction rs) (auto split: if_splits)

lemma first_decisive_Panic:
  "first_decisive rs = Panic p \<Longrightarrow> p = NilDereference \<and> (\<exists>r \<in> set rs. HTTP r = None)"
  by (induction rs) (auto split: if_splits)

locale challenge_scan =
  fixes scan :: "Ingress \<Rightarrow> bool outcome"
  assumes scan_first: "scan ing = first_decisive (elems (Rules ing))"
begin

lemma scan_http: "http_rules ing \<Longrightarrow> scan ing = Ret (has_challenge ing)"
  by (simp add: scan_first http_rules_def has_challenge_def first_decisive_http)

lemma scan_Ret: "scan ing = Ret b \<Longrightarrow> b = has_challenge ing"
  using first_decisive_Ret by (simp add: scan_first has_challenge_def)

lemma scan_Panic: "scan ing = Panic p \<Longrightarrow> p = NilDereference \<and> \<not> http_rules ing"
  using first_decisive_Panic by (auto simp: scan_first http_rules_def)

lemma scan_cases:
  obtains (answer) "scan ing = Ret (has_challenge ing)" | (nil) "scan ing = Panic NilDereference"
  using scan_Ret [of ing] scan_Panic [of ing] by (cases "scan ing") auto

end

section \<open>Iterating a loop that only changes the world\<close>

lemma rounds_world:
  assumes "\<And>v u. body (s\<lparr>world := v\<rparr>) = Inr u \<longleftrightarrow> P v \<and> u = s\<lparr>world := f v\<rparr>"
  shows "rounds body n (s\<lparr>world := v\<rparr>) = Some t \<longleftrightarrow>
     (\<forall>j<n. P ((f ^^ j) v)) \<and> t = s\<lparr>world := (f ^^ n) v\<rparr>"
proof (induction n arbitrary: v)
  case 0
  then show ?case by auto
next
  case (Suc n)
  have shift: "(\<forall>j<Suc n. P ((f ^^ j) v)) \<longleftrightarrow> P v \<and> (\<forall>j<n. P ((f ^^ j) (f v)))"
    by (simp add: All_less_Suc2 funpow_swap1 del: funpow.simps(2)) (simp add: funpow_swap1)
  have pow: "(f ^^ Suc n) v = (f ^^ n) (f v)" by (simp add: funpow_swap1)
  show ?case
  proof (cases "body (s\<lparr>world := v\<rparr>)")
    case (Inl r)
    then have "\<not> P v" using assms [of v "s\<lparr>world := f v\<rparr>"] by auto
    then show ?thesis using Inl shift by simp
  next
    case (Inr u)
    then have "P v" "u = s\<lparr>world := f v\<rparr>" using assms by auto
    then show ?thesis unfolding shift pow using Suc.IH [of "f v"] Inr by simp
  qed
qed

lemma for_loop_world:
  assumes "\<And>v u. body (s\<lparr>world := v\<rparr>) = Inr u \<longleftrightarrow> P v \<and> u = s\<lparr>world := f v\<rparr>"
  shows "for_loop body s = Some r \<longleftrightarrow>
     (\<exists>n. (\<forall>j<n. P ((f ^^ j) (world s))) \<and> body (s\<lparr>world := (f ^^ n) (world s)\<rparr>) = Inl r)"
  using rounds_world [of body s P f, OF assms, of _ "world s"]
  by (auto simp: for_loop_eq_Some_iff)

section \<open>Polling until the challenge is gone\<close>

definition poll :: "'w client \<Rightarrow> ctx \<Rightarrow> string \<Rightarrow> string \<Rightarrow> 'w \<Rightarrow> 'w" where
  "poll c ctx ns n v = sleep c second (snd (getIngress c ctx ns n v))"

definition still_there :: "'w client \<Rightarrow> ctx \<Rightarrow> string \<Rightarrow> string \<Rightarrow> 'w \<Rightarrow> bool" where
  "still_there c ctx ns n v \<longleftrightarrow> \<not> ctxDone ctx (now c v) \<and>
     (\<exists>ing. fst (getIngress c ctx ns n v) = Inr ing \<and> first_decisive (elems (Rules ing)) = Ret True)"

text \<open>How a poll that is not \<open>still_there\<close> ends the wait: the world it sees, the result, the world after.\<close>

inductive absence_end ::
  "'w client \<Rightarrow> ctx \<Rightarrow> duration \<Rightarrow> time \<Rightarrow> string \<Rightarrow> string \<Rightarrow>
   'w \<Rightarrow> (duration \<times> go_error option) outcome \<Rightarrow> 'w \<Rightarrow> bool"
  for c ctx timeout start ns n where
  timed_out: "ctxDone ctx (now c v) \<Longrightarrow>
     absence_end c ctx timeout start ns n v (Ret (timeout * 2, None)) v"
| fetch_failed: "\<not> ctxDone ctx (now c v) \<Longrightarrow> getIngress c ctx ns n v = (Inl err, w) \<Longrightarrow>
     absence_end c ctx timeout start ns n v (Ret (time_sub (now c w) start, Some (ApiErr err))) w"
| absent: "\<not> ctxDone ctx (now c v) \<Longrightarrow> getIngress c ctx ns n v = (Inr ing, w) \<Longrightarrow>
     first_decisive (elems (Rules ing)) = Ret False \<Longrightarrow>
     absence_end c ctx timeout start ns n v (Ret (time_sub (now c w) start, None)) w"
| nil_rule: "\<not> ctxDone ctx (now c v) \<Longrightarrow> getIngress c ctx ns n v = (Inr ing, w) \<Longrightarrow>
     first_decisive (elems (Rules ing)) = Panic p \<Longrightarrow>
     absence_end c ctx timeout start ns n v (Panic p) w"

lemma absence_end_exists:
  assumes "\<not> still_there c ctx ns n v"
  shows "\<exists>r w. absence_end c ctx timeout start ns n v r w"
proof (cases "ctxDone ctx (now c v)")
  case True
  then show ?thesis by (blast intro: timed_out)
next
  case False
  obtain got w where got: "getIngress c ctx ns n v = (got, w)" by (cases "getIngress c ctx ns n v")
  show ?thesis
  proof (cases got)
    case (Inl err)
    with False got show ?thesis by (blast intro: fetch_failed)
  next
    case (Inr ing)
    then have fetched: "getIngress c ctx ns n v = (Inr ing, w)" using got by simp
    have undecided: "first_decisive (elems (Rules ing)) \<noteq> Ret True"
      using assms False fetched by (simp add: still_there_def)
    show ?thesis
    proof (cases "first_decisive (elems (Rules ing))")
      case (Ret b)
      with undecided have "first_decisive (elems (Rules ing)) = Ret False" by simp
      with False fetched show ?thesis by (blast intro: absent)
    next
      case (Panic p)
      with False fetched show ?thesis by (blast intro: nil_rule)
    qed
  qed
qed

locale absence_wait =
  fixes wait :: "'w client \<Rightarrow> ctx \<Rightarrow> duration \<Rightarrow> string \<Rightarrow> string \<Rightarrow>
      (('w, 'x) base_scheme, duration \<times> go_error option) prog"
  assumes wait_iff:
    "wait c ctx timeout ns n s = Some (r, s') \<longleftrightarrow>
      (\<exists>i w. (let tctx = withTimeout ctx (now c (world s)) timeout;
                 after = (\<lambda>j. (poll c tctx ns n ^^ j) (world s))
             in (\<forall>j<i. still_there c tctx ns n (after j)) \<and>
                absence_end c tctx timeout (now c (world s)) ns n (after i) r w) \<and>
         s' = s\<lparr>world := w\<rparr>)"
begin

lemma wait_world: "wait c ctx timeout ns n s = Some (r, s') \<Longrightarrow> \<exists>w. s' = s\<lparr>world := w\<rparr>"
  by (auto simp: wait_iff)

lemma wait_keeps_mutex: "keeps mutex_ok (wait c ctx timeout ns n)"
  by (rule keepsI) (auto dest!: wait_world)

lemma wait_result:
  assumes "wait c ctx timeout ns n s = Some (r, s')"
  obtains v w where "s' = s\<lparr>world := w\<rparr>"
    and "absence_end c (withTimeout ctx (now c (world s)) timeout) timeout (now c (world s)) ns n v r w"
  using assms by (auto simp: wait_iff Let_def)

text \<open>
  An answer other than twice the timeout, without an error, is given only after a fetch that saw no
  challenge path.
\<close>

lemma wait_absent:
  assumes "wait c ctx timeout ns n s = Some (Ret (d, None), s')" and "d \<noteq> timeout * 2"
  shows "\<exists>tctx v ing. getIngress c tctx ns n v = (Inr ing, world s') \<and> \<not> has_challenge ing"
proof -
  obtain v w where "s' = s\<lparr>world := w\<rparr>" and
    "absence_end c (withTimeout ctx (now c (world s)) timeout) timeout (now c (world s)) ns n v (Ret (d, None)) w"
    by (rule wait_result [OF assms(1)])
  then show ?thesis
    using assms(2) by (fastforce elim: absence_end.cases dest: first_decisive_Ret simp: has_challenge_def)
qed

text \<open>
  With a clock that advances while sleeping, the deadline is passed after finitely many polls, so
  the wait returns.
\<close>

lemma wait_returns:
  assumes "clock_ok c"
  shows "\<exists>r s'. wait c ctx timeout ns n s = Some (r, s')"
proof -
  let ?t = "withTimeout ctx (now c (world s)) timeout"
  let ?at = "\<lambda>j. (poll c ?t ns n ^^ j) (world s)"
  have tick: "now c v + 1000000000 \<le> now c (poll c ?t ns n v)" for v
  proof -
    obtain got w where got: "getIngress c ?t ns n v = (got, w)" by (cases "getIngress c ?t ns n v")
    have "now c v \<le> now c w" using clock_ok_get [OF assms got] .
    also have "now c w + 1000000000 \<le> now c (sleep c second w)"
      using clock_ok_sleep [OF assms, of second w] by simp
    finally show ?thesis by (simp add: poll_def got)
  qed
  have clock: "now c (world s) + 1000000000 * int j \<le> now c (?at j)" for j
  proof (induction j)
    case (Suc j)
    then show ?case using tick [of "?at j"] by (simp add: algebra_simps)
  qed simp
  have late: "\<exists>i. \<not> still_there c ?t ns n (?at i)"
  proof -
    define i where "i = nat \<bar>sint timeout\<bar>"
    have "now c (world s) + sint timeout \<le> now c (world s) + 1000000000 * int i"
      unfolding i_def by (simp add: abs_if)
    also note clock [of i]
    finally have "ctxDone ?t (now c (?at i))" by (simp add: ctxDone_withTimeout)
    then show ?thesis by (auto simp: still_there_def)
  qed
  define i where "i = (LEAST i. \<not> still_there c ?t ns n (?at i))"
  have "\<not> still_there c ?t ns n (?at i)" unfolding i_def using late by (rule LeastI_ex)
  moreover have "\<forall>j<i. still_there c ?t ns n (?at j)"
    unfolding i_def using not_less_Least by blast
  ultimately obtain r w where "\<forall>j<i. still_there c ?t ns n (?at j)"
    "absence_end c ?t timeout (now c (world s)) ns n (?at i) r w"
    using absence_end_exists by metis
  then have "wait c ctx timeout ns n s = Some (r, s\<lparr>world := w\<rparr>)"
    unfolding wait_iff Let_def by blast
  then show ?thesis by blast
qed

end

end
