(* ===== verification/RenewalRound.thy ===== *)
theory RenewalRound
  imports Annotations WatchLoops
begin

text \<open>
  One round of a renewal, as both programs run it: take the HTTPS annotation off, wait until the
  challenge is gone or the delay has passed, put the annotation back. The programs differ in when
  they call the round a success and in what they count. The locale \<open>renewal_round\<close> builds on
  the contracts of the annotation operations and of the wait, and proves once what a round does.
\<close>

section \<open>The steps of a round\<close>

type_synonym ('w, 'x) editor =
  "'w client \<Rightarrow> ctx \<Rightarrow> Ingress \<Rightarrow> (('w, 'x) base_scheme, go_error option \<times> Ingress) prog"

type_synonym ('w, 'x) waiter =
  "'w client \<Rightarrow> ctx \<Rightarrow> duration \<Rightarrow> string \<Rightarrow> string \<Rightarrow>
   (('w, 'x) base_scheme, duration \<times> go_error option) prog"

inductive round_run ::
  "('w, 'x) editor \<Rightarrow> ('w, 'x) waiter \<Rightarrow> ('w, 'x) editor \<Rightarrow>
   (duration \<Rightarrow> duration \<Rightarrow> bool) \<Rightarrow>
   (duration \<Rightarrow> duration \<Rightarrow> ('w, 'x) base_scheme \<Rightarrow> ('w, 'x) base_scheme) \<Rightarrow>
   (duration \<Rightarrow> duration \<Rightarrow> ('w, 'x) base_scheme \<Rightarrow> ('w, 'x) base_scheme) \<Rightarrow>
   'w client \<Rightarrow> ctx \<Rightarrow> duration \<Rightarrow> Ingress \<Rightarrow> ('w, 'x) base_scheme \<Rightarrow>
   (bool \<times> go_error option \<times> Ingress) outcome \<Rightarrow> ('w, 'x) base_scheme \<Rightarrow> bool"
  for remove wait add renewed observe count c ctx timeout ing s where
  removal_failed:
    "remove c ctx ing s = Some (Ret (Some e, ing1), s1) \<Longrightarrow>
     round_run remove wait add renewed observe count c ctx timeout ing s (Ret (False, Some e, ing1)) s1"
| wait_panicked:
    "remove c ctx ing s = Some (Ret (None, ing1), s1) \<Longrightarrow>
     wait c ctx timeout (Namespace ing1) (Name ing1) s1 = Some (Panic p, s2) \<Longrightarrow>
     round_run remove wait add renewed observe count c ctx timeout ing s (Panic p) s2"
| wait_failed:
    "remove c ctx ing s = Some (Ret (None, ing1), s1) \<Longrightarrow>
     wait c ctx timeout (Namespace ing1) (Name ing1) s1 = Some (Ret (d, Some e), s2) \<Longrightarrow>
     round_run remove wait add renewed observe count c ctx timeout ing s (Ret (False, Some e, ing1)) s2"
| add_failed:
    "remove c ctx ing s = Some (Ret (None, ing1), s1) \<Longrightarrow>
     wait c ctx timeout (Namespace ing1) (Name ing1) s1 = Some (Ret (d, None), s2) \<Longrightarrow>
     add c ctx ing1 (observe timeout d s2) = Some (Ret (Some e, ing2), s3) \<Longrightarrow>
     round_run remove wait add renewed observe count c ctx timeout ing s
       (Ret (renewed timeout d, Some e, ing2)) s3"
| completed:
    "remove c ctx ing s = Some (Ret (None, ing1), s1) \<Longrightarrow>
     wait c ctx timeout (Namespace ing1) (Name ing1) s1 = Some (Ret (d, None), s2) \<Longrightarrow>
     add c ctx ing1 (observe timeout d s2) = Some (Ret (None, ing2), s3) \<Longrightarrow>
     round_run remove wait add renewed observe count c ctx timeout ing s
       (Ret (renewed timeout d, None, ing2)) (count timeout d s3)"

section \<open>What a round promises\<close>

locale renewal_round =
  annotation_pair remove rem_change rem_refusal add add_change add_refusal +
  absence_wait wait
  for remove :: "('w, 'x) editor" and rem_change rem_refusal
    and add :: "('w, 'x) editor" and add_change add_refusal
    and wait :: "('w, 'x) waiter" +
  fixes renew :: "'w client \<Rightarrow> ctx \<Rightarrow> 'settings \<Rightarrow> Ingress \<Rightarrow>
      (('w, 'x) base_scheme, bool \<times> go_error option \<times> Ingress) prog"
    and delay :: "'settings \<Rightarrow> duration"
    and renewed :: "duration \<Rightarrow> duration \<Rightarrow> bool"
    and observe count :: "duration \<Rightarrow> duration \<Rightarrow> ('w, 'x) base_scheme \<Rightarrow> ('w, 'x) base_scheme"
  assumes removal_fails: "remove c ctx ing s = Some (Ret (Some e, ing1), s1) \<Longrightarrow>
      renew c ctx cfg ing s = Some (Ret (False, Some e, ing1), s1)"
    and wait_panics: "remove c ctx ing s = Some (Ret (None, ing1), s1) \<Longrightarrow>
      wait c ctx (delay cfg) (Namespace ing1) (Name ing1) s1 = Some (Panic p, s2) \<Longrightarrow>
      renew c ctx cfg ing s = Some (Panic p, s2)"
    and wait_fails: "remove c ctx ing s = Some (Ret (None, ing1), s1) \<Longrightarrow>
      wait c ctx (delay cfg) (Namespace ing1) (Name ing1) s1 = Some (Ret (d, Some e), s2) \<Longrightarrow>
      renew c ctx cfg ing s = Some (Ret (False, Some e, ing1), s2)"
    and wait_hangs: "remove c ctx ing s = Some (Ret (None, ing1), s1) \<Longrightarrow>
      wait c ctx (delay cfg) (Namespace ing1) (Name ing1) s1 = None \<Longrightarrow>
      renew c ctx cfg ing s = None"
    and wait_ends: "remove c ctx ing s = Some (Ret (None, ing1), s1) \<Longrightarrow>
      wait c ctx (delay cfg) (Namespace ing1) (Name ing1) s1 = Some (Ret (d, None), s2) \<Longrightarrow>
      add c ctx ing1 (observe (delay cfg) d s2) = Some (Ret (e', ing2), s3) \<Longrightarrow>
      renew c ctx cfg ing s = Some (Ret (renewed (delay cfg) d, e', ing2),
        case e' of Some _ \<Rightarrow> s3 | None \<Rightarrow> count (delay cfg) d s3)"
    and observe_frame: "world (observe t d s) = world s" "auditMutex (observe t d s) = auditMutex s"
    and count_frame: "world (count t d s) = world s" "auditMutex (count t d s) = auditMutex s"
begin

lemma frame [simp]:
  "mutex_ok (observe t d s) = mutex_ok s" "held_names (observe t d s) = held_names s"
  "mutex_ok (count t d s) = mutex_ok s" "held_names (count t d s) = held_names s"
  by (simp_all add: mutex_ok_def held_names_def observe_frame count_frame)

lemmas round_intros = round_run.intros
  [where remove = remove and wait = wait and add = add and renewed = renewed
     and observe = observe and count = count]

lemma remove_mutex: "mutex_ok s \<Longrightarrow> remove c ctx ing s = Some (r, s') \<Longrightarrow> mutex_ok s'"
  using keepsD [OF remove.edit_keeps_mutex] .

lemma add_mutex: "mutex_ok s \<Longrightarrow> add c ctx ing s = Some (r, s') \<Longrightarrow> mutex_ok s'"
  using keepsD [OF add.edit_keeps_mutex] .

lemma wait_mutex: "mutex_ok s \<Longrightarrow> wait c ctx t ns n s = Some (r, s') \<Longrightarrow> mutex_ok s'"
  using keepsD [OF wait_keeps_mutex] .

lemma wait_held: "wait c ctx t ns n s = Some (r, s') \<Longrightarrow> held_names s' = held_names s"
  using wait_world by fastforce

lemma renew_runs:
  assumes ok: "mutex_ok s"
  shows "renew c ctx cfg ing s = Some (r, s') \<longleftrightarrow>
     round_run remove wait add renewed observe count c ctx (delay cfg) ing s r s'"
    (is "?run \<longleftrightarrow> ?round r s'")
proof
  assume ?run
  obtain e1 ing1 s1 where rem: "remove c ctx ing s = Some (Ret (e1, ing1), s1)"
    using remove.edit_returns [OF ok] by metis
  show "?round r s'"
  proof (cases e1)
    case (Some e)
    note rem = rem [unfolded Some]
    show ?thesis using removal_fails [OF rem] \<open>?run\<close> round_intros(1) [OF rem] by auto
  next
    case None
    note rem = rem [unfolded None]
    show ?thesis
    proof (cases "wait c ctx (delay cfg) (Namespace ing1) (Name ing1) s1")
      case None
      with wait_hangs [OF rem] \<open>?run\<close> show ?thesis by simp
    next
      case (Some ws)
      obtain w s2 where "ws = (w, s2)" by (cases ws)
      note wait = Some [unfolded this]
      show ?thesis
      proof (cases w)
        case (Panic p)
        note wait = wait [unfolded Panic]
        show ?thesis using wait_panics [OF rem wait] \<open>?run\<close> round_intros(2) [OF rem wait] by auto
      next
        case (Ret de)
        obtain d e2 where "de = (d, e2)" by (cases de)
        note wait = wait [unfolded Ret this]
        have "mutex_ok (observe (delay cfg) d s2)"
          using wait_mutex [OF remove_mutex [OF ok rem] wait] by simp
        then obtain e3 ing2 s3 where add: "add c ctx ing1 (observe (delay cfg) d s2) = Some (Ret (e3, ing2), s3)"
          using add.edit_returns by metis
        show ?thesis
        proof (cases e2)
          case (Some e)
          note wait = wait [unfolded Some]
          show ?thesis using wait_fails [OF rem wait] \<open>?run\<close> round_intros(3) [OF rem wait] by auto
        next
          case None
          note wait = wait [unfolded None]
          from wait_ends [OF rem wait add] \<open>?run\<close>
            round_intros(5) [OF rem wait] round_intros(4) [OF rem wait] add
          show ?thesis by (cases e3) auto
        qed
      qed
    qed
  qed
next
  assume "?round r s'"
  then show ?run
    by cases (simp_all add: removal_fails wait_panics wait_fails wait_ends)
qed

lemmas renew_intros = round_intros [THEN renew_runs [THEN iffD2, rotated]]

lemma renew_keeps_mutex: "keeps mutex_ok (renew c ctx cfg ing)"
proof (rule keepsI)
  fix s r s'
  assume ok: "mutex_ok s" and "renew c ctx cfg ing s = Some (r, s')"
  then have "round_run remove wait add renewed observe count c ctx (delay cfg) ing s r s'"
    using renew_runs by simp
  then show "mutex_ok s'"
  proof cases
    case (add_failed ing1 s1 d s2 e ing2)
    have "mutex_ok (observe (delay cfg) d s2)"
      using wait_mutex [OF remove_mutex [OF ok add_failed(2)] add_failed(3)] by simp
    then show ?thesis by (rule add_mutex [OF _ add_failed(4)])
  next
    case (completed ing1 s1 d s2 ing2 s3)
    have "mutex_ok (observe (delay cfg) d s2)"
      using wait_mutex [OF remove_mutex [OF ok completed(3)] completed(4)] by simp
    from add_mutex [OF this completed(5)] completed(2) show ?thesis by simp
  next
    case (removal_failed e ing1)
    then show ?thesis using ok remove_mutex by simp
  next
    case (wait_panicked ing1 s1 p)
    show ?thesis by (rule wait_mutex [OF remove_mutex [OF ok wait_panicked(2)] wait_panicked(3)])
  next
    case (wait_failed ing1 s1 d e)
    show ?thesis by (rule wait_mutex [OF remove_mutex [OF ok wait_failed(2)] wait_failed(3)])
  qed
qed

text \<open>A round returns whatever the cluster does, as long as sleeping takes time.\<close>

lemma renew_returns:
  assumes "clock_ok c" and ok: "mutex_ok s"
  shows "\<exists>r s'. renew c ctx cfg ing s = Some (r, s')"
proof -
  obtain e1 ing1 s1 where rem: "remove c ctx ing s = Some (Ret (e1, ing1), s1)"
    using remove.edit_returns [OF ok] by metis
  show ?thesis
  proof (cases e1)
    case (Some e)
    from renew_intros(1) [OF rem [unfolded Some] ok] show ?thesis by blast
  next
    case None
    note rem = rem [unfolded None]
    obtain w s2 where wait: "wait c ctx (delay cfg) (Namespace ing1) (Name ing1) s1 = Some (w, s2)"
      using wait_returns [OF assms(1)] by blast
    show ?thesis
    proof (cases w)
      case (Panic p)
      from renew_intros(2) [OF rem wait [unfolded Panic] ok] show ?thesis by blast
    next
      case (Ret de)
      obtain d e2 where de: "de = (d, e2)" by (cases de)
      note wait = wait [unfolded Ret de]
      have "mutex_ok (observe (delay cfg) d s2)"
        using wait_mutex [OF remove_mutex [OF ok rem] wait] by simp
      then obtain e3 ing2 s3 where add: "add c ctx ing1 (observe (delay cfg) d s2) = Some (Ret (e3, ing2), s3)"
        using add.edit_returns by metis
      show ?thesis
      proof (cases e2)
        case (Some e)
        from renew_intros(3) [OF rem wait [unfolded Some] ok] show ?thesis by blast
      next
        case e2: None
        show ?thesis
        proof (cases e3)
          case None
          from renew_intros(5) [OF rem wait [unfolded e2] add [unfolded None] ok] show ?thesis by blast
        next
          case (Some e)
          from renew_intros(4) [OF rem wait [unfolded e2] add [unfolded Some] ok] show ?thesis by blast
        qed
      qed
    qed
  qed
qed

text \<open>
  A round that reports no error has put the annotation back: the last thing it did to the cluster
  was an accepted update that carries HTTPS. The locks are as before, and the verdict is the one
  for the time the wait reported.
\<close>

lemma renew_success:
  assumes ok: "mutex_ok s" and run: "renew c ctx cfg ing s = Some (Ret (b, None, ing'), s')"
  obtains ing1 s1 d s2 last w where "remove c ctx ing s = Some (Ret (None, ing1), s1)"
    and "wait c ctx (delay cfg) (Namespace ing1) (Name ing1) s1 = Some (Ret (d, None), s2)"
    and "b = renewed (delay cfg) d"
    and "getIngress c ctx (Namespace ing1) (Name ing1) (world s2) = (Inr last, w)"
    and "updateIngress c ctx (last\<lparr>Annotations := add_change (Annotations last)\<rparr>) w = (Inr ing', world s')"
    and "held_names s' = held_names s"
proof -
  from run renew_runs [OF ok]
  have "round_run remove wait add renewed observe count c ctx (delay cfg) ing s (Ret (b, None, ing')) s'"
    by simp
  then show thesis
  proof cases
    case (completed ing1 s1 d s2 s3)
    have s2: "mutex_ok (observe (delay cfg) d s2)"
      using wait_mutex [OF remove_mutex [OF ok completed(3)] completed(4)] by simp
    obtain last w1 w2 m where add:
      "getIngress c ctx (Namespace ing1) (Name ing1) (world (observe (delay cfg) d s2)) = (Inr last, w1)"
      "updateIngress c ctx (last\<lparr>Annotations := add_change (Annotations last)\<rparr>) w1 = (Inr ing', w2)"
      "s3 = observe (delay cfg) d s2\<lparr>world := w2, auditMutex := m\<rparr>"
      "nm_held m = held_names (observe (delay cfg) d s2)"
      using add.edit_success [OF s2] completed by metis
    obtain wr mr where "s1 = s\<lparr>world := wr, auditMutex := mr\<rparr>" "nm_held mr = held_names s"
      using remove.edit_success [OF ok] completed by metis
    then have "held_names s1 = held_names s" by (simp add: held_names_def)
    then have "held_names s3 = held_names s"
      using add(3,4) wait_held [OF completed(4)] by (simp add: held_names_def observe_frame)
    then show thesis
      using that [of ing1 s1 d s2 last w1] completed add by (simp add: observe_frame count_frame)
  qed
qed

text \<open>
  A wait that fails ends the round: the annotation is not put back, although it has been taken off.
\<close>

lemma renew_wait_failed:
  assumes ok: "mutex_ok s"
    and "remove c ctx ing s = Some (Ret (None, ing1), s1)"
    and "wait c ctx (delay cfg) (Namespace ing1) (Name ing1) s1 = Some (Ret (d, Some e), s2)"
  shows "renew c ctx cfg ing s = Some (Ret (False, Some e, ing1), s2)"
  by (rule renew_intros(3) [OF assms(2,3) ok])

end

end
