(* ===== verification/Challenge.thy ===== *)
theory Challenge
  imports WatchLoops
begin

text \<open>
  The challenge part of \<open>internal/controller/ingress_watcher.go\<close>: scanning an Ingress for ACME
  challenge paths, polling until they are gone, and watching until one appears.
\<close>

section \<open>Scanning\<close>

definition isAcmeChallengePath :: "string \<Rightarrow> bool" where
  "isAcmeChallengePath p = contains p ''.well-known/acme-challenge''"

fun any_acme_path :: "HTTPIngressPath list \<Rightarrow> bool" where
  "any_acme_path [] = False"
| "any_acme_path (p # ps) = (if isAcmeChallengePath (Path p) then True else any_acme_path ps)"

fun any_acme_rule :: "IngressRule list \<Rightarrow> bool outcome" where
  "any_acme_rule [] = Ret False"
| "any_acme_rule (r # rs) =
     (case HTTP r of
        None \<Rightarrow> Panic NilDereference
      | Some v \<Rightarrow> if any_acme_path (elems (Paths v)) then Ret True else any_acme_rule rs)"

definition isContainsAcmeChallenge :: "Ingress \<Rightarrow> bool outcome" where
  "isContainsAcmeChallenge ing = any_acme_rule (elems (Rules ing))"

text \<open>The scan written out inside the polling loop, with its flag and two breaks.\<close>

fun scan_paths :: "HTTPIngressPath list \<Rightarrow> bool \<Rightarrow> bool" where
  "scan_paths [] found = found"
| "scan_paths (p # ps) found =
     (if contains (Path p) ''.well-known/acme-challenge'' then True else scan_paths ps found)"

fun scan_rules :: "IngressRule list \<Rightarrow> bool \<Rightarrow> bool outcome" where
  "scan_rules [] found = Ret found"
| "scan_rules (r # rs) found =
     (case HTTP r of
        None \<Rightarrow> Panic NilDereference
      | Some v \<Rightarrow>
          (let found' = scan_paths (elems (Paths v)) found
           in if found' then Ret found' else scan_rules rs found'))"

definition challengePathFound :: "Ingress \<Rightarrow> bool outcome" where
  "challengePathFound ing = scan_rules (elems (Rules ing)) False"

definition hasIngressChanged :: "Ingress \<Rightarrow> Ingress \<Rightarrow> bool" where
  "hasIngressChanged oldIng newIng \<longleftrightarrow> Rules oldIng \<noteq> Rules newIng"

lemma any_acme_path_iff: "any_acme_path ps \<longleftrightarrow> (\<exists>p \<in> set ps. sublist challenge_path (Path p))"
  by (induction ps) (auto simp: isAcmeChallengePath_def contains_iff_sublist challenge_path_def)

lemma scan_paths_iff: "scan_paths ps found \<longleftrightarrow> found \<or> (\<exists>p \<in> set ps. sublist challenge_path (Path p))"
  by (induction ps) (auto simp: contains_iff_sublist challenge_path_def)

interpretation contains_scan: challenge_scan isContainsAcmeChallenge
proof
  fix ing
  have "any_acme_rule rs = first_decisive rs" for rs
    by (induction rs) (auto simp: any_acme_path_iff rule_has_challenge_def split: option.split)
  then show "isContainsAcmeChallenge ing = first_decisive (elems (Rules ing))"
    by (simp add: isContainsAcmeChallenge_def)
qed

interpretation flag_scan: challenge_scan challengePathFound
proof
  fix ing
  have "scan_rules rs False = first_decisive rs" for rs
    by (induction rs) (auto simp: scan_paths_iff rule_has_challenge_def Let_def split: option.split)
  then show "challengePathFound ing = first_decisive (elems (Rules ing))"
    by (simp add: challengePathFound_def)
qed

lemma example_scan: "first_decisive (elems (Rules example_ingress)) = Ret True"
proof -
  have "isContainsAcmeChallenge example_ingress = Ret True"
    by (simp add: isContainsAcmeChallenge_def example_ingress_def isAcmeChallengePath_def)
  then show ?thesis by (simp only: contains_scan.scan_first)
qed

section \<open>Polling until the challenge is gone\<close>

definition absence_body ::
  "'w client \<Rightarrow> duration \<Rightarrow> time \<Rightarrow> ctx \<Rightarrow> string \<Rightarrow> string \<Rightarrow> ('w, 'x) base_scheme \<Rightarrow>
   ((duration \<times> go_error option) outcome \<times> ('w, 'x) base_scheme) + ('w, 'x) base_scheme" where
  "absence_body c timeout startTime timeoutCtx ns n s =
     (if ctxDone timeoutCtx (now c (world s)) then Inl (Ret (timeout * 2, None), s)
      else case getIngress c timeoutCtx ns n (world s) of
        (Inl err, w) \<Rightarrow> Inl (Ret (time_sub (now c w) startTime, Some (ApiErr err)), s\<lparr>world := w\<rparr>)
      | (Inr ingress, w) \<Rightarrow>
          (case challengePathFound ingress of
             Panic p \<Rightarrow> Inl (Panic p, s\<lparr>world := w\<rparr>)
           | Ret pathFound \<Rightarrow>
               if \<not> pathFound then Inl (Ret (time_sub (now c w) startTime, None), s\<lparr>world := w\<rparr>)
               else Inr (s\<lparr>world := sleep c second w\<rparr>)))"

definition waitForChallengeAbsence ::
  "'w client \<Rightarrow> ctx \<Rightarrow> duration \<Rightarrow> string \<Rightarrow> string \<Rightarrow>
   (('w, 'x) base_scheme, duration \<times> go_error option) prog" where
  "waitForChallengeAbsence c ctx timeout ns n s =
     (let startTime = now c (world s);
          timeoutCtx = withTimeout ctx (now c (world s)) timeout
      in for_loop (absence_body c timeout startTime timeoutCtx ns n) s)"

lemma absence_body_again:
  "absence_body c timeout start tctx ns n (s\<lparr>world := v\<rparr>) = Inr u \<longleftrightarrow>
     still_there c tctx ns n v \<and> u = s\<lparr>world := poll c tctx ns n v\<rparr>"
  by (cases "getIngress c tctx ns n v")
     (auto simp: absence_body_def still_there_def poll_def flag_scan.scan_first
        split: sum.splits outcome.splits)

lemma absence_body_exit:
  "absence_body c timeout start tctx ns n (s\<lparr>world := v\<rparr>) = Inl (r, s') \<longleftrightarrow>
     (\<exists>w. absence_end c tctx timeout start ns n v r w \<and> s' = s\<lparr>world := w\<rparr>)"
  by (cases "getIngress c tctx ns n v")
     (auto simp: absence_body_def absence_end.simps flag_scan.scan_first
        split: sum.splits outcome.splits)

lemma absence_loop_iff:
  "for_loop (absence_body c timeout start tctx ns n) s = Some (r, s') \<longleftrightarrow>
     (\<exists>i. (\<forall>j<i. still_there c tctx ns n ((poll c tctx ns n ^^ j) (world s))) \<and>
        (\<exists>w. absence_end c tctx timeout start ns n ((poll c tctx ns n ^^ i) (world s)) r w \<and>
             s' = s\<lparr>world := w\<rparr>))"
  using for_loop_world [of "absence_body c timeout start tctx ns n" s "still_there c tctx ns n"
      "poll c tctx ns n", OF absence_body_again]
  by (simp add: absence_body_exit)

interpretation op_absence: absence_wait waitForChallengeAbsence
proof
  fix c ctx timeout ns n and s :: "('w, 'x) base_scheme" and r s'
  show "waitForChallengeAbsence c ctx timeout ns n s = Some (r, s') \<longleftrightarrow>
      (\<exists>i w. (let tctx = withTimeout ctx (now c (world s)) timeout;
                 after = (\<lambda>j. (poll c tctx ns n ^^ j) (world s))
             in (\<forall>j<i. still_there c tctx ns n (after j)) \<and>
                absence_end c tctx timeout (now c (world s)) ns n (after i) r w) \<and>
         s' = s\<lparr>world := w\<rparr>)"
    unfolding waitForChallengeAbsence_def Let_def absence_loop_iff by blast
qed

section \<open>Watching until a challenge appears\<close>

definition acme_body ::
  "'w client \<Rightarrow> watcher \<Rightarrow> time \<Rightarrow> ctx \<Rightarrow> ('w, 'x) base_scheme \<Rightarrow>
   (go_error option outcome \<times> ('w, 'x) base_scheme) + ('w, 'x) base_scheme" where
  "acme_body c watcher timeoutCh ctx s =
     (case selectWatch c watcher timeoutCh ctx (world s) of (event, w) \<Rightarrow>
        let s1 = s\<lparr>world := w\<rparr> in
        (case event of
          WatchClosed \<Rightarrow> Inl (Ret (Some (NewErr ''watch channel closed'')), s1)
        | WatchEvent ty ob \<Rightarrow>
            if ty = Added \<or> ty = Modified then
              (case ob of
                 ObjIngress ing \<Rightarrow>
                   (case isContainsAcmeChallenge ing of
                      Panic p \<Rightarrow> Inl (Panic p, s1)
                    | Ret True \<Rightarrow> Inl (Ret None, s1)
                    | Ret False \<Rightarrow> Inr s1)
               | ObjOther \<Rightarrow> Inr s1)
            else if ty = Deleted then
              Inl (Ret (Some (NewErr ''ingress deleted before acme challenge appeared'')), s1)
            else if ty = Error then Inl (Ret (Some (NewErr ''error watching ingress'')), s1)
            else Inr s1
        | TimerFired \<Rightarrow> Inl (Ret (Some (NewErr ''timed out waiting for acme challenge'')), s1)
        | ContextDone \<Rightarrow> Inl (Ret (Some CtxErr), s1)))"

definition waitForAcmeChallenge ::
  "'w client \<Rightarrow> ctx \<Rightarrow> string \<Rightarrow> string \<Rightarrow> (('w, 'x) base_scheme, go_error option) prog" where
  "waitForAcmeChallenge c ctx ns ingressName s =
     (case watchIngresses c ctx ns ingressName (world s) of
        (Inl err, w) \<Rightarrow> Some (Ret (Some (ApiErr err)), s\<lparr>world := w\<rparr>)
      | (Inr watcher, w) \<Rightarrow>
          let timeoutCh = now c w + sint (10 * second) in
          (case for_loop (acme_body c watcher timeoutCh ctx) (s\<lparr>world := w\<rparr>) of
             None \<Rightarrow> None
           | Some (r, s1) \<Rightarrow> Some (r, s1\<lparr>world := stopWatch c watcher (world s1)\<rparr>)))"

text \<open>
  The specification works on the stream of events that the select delivers: events that say
  nothing about a challenge are ignored, the first other one gives the verdict.
\<close>

definition acme_verdict :: "select_event \<Rightarrow> go_error option outcome option" where
  "acme_verdict e = (case e of
      WatchEvent ty (ObjIngress ing) \<Rightarrow>
        (if ty \<in> {Added, Modified} then
           (case first_decisive (elems (Rules ing)) of
              Ret True \<Rightarrow> Some (Ret None) | Ret False \<Rightarrow> None | Panic p \<Rightarrow> Some (Panic p))
         else if ty = Bookmark then None
         else Some (Ret (Some (NewErr (if ty = Deleted
                then ''ingress deleted before acme challenge appeared'' else ''error watching ingress'')))))
    | WatchEvent ty ObjOther \<Rightarrow>
        (if ty \<in> {Added, Modified, Bookmark} then None
         else Some (Ret (Some (NewErr (if ty = Deleted
                then ''ingress deleted before acme challenge appeared'' else ''error watching ingress'')))))
    | WatchClosed \<Rightarrow> Some (Ret (Some (NewErr ''watch channel closed'')))
    | TimerFired \<Rightarrow> Some (Ret (Some (NewErr ''timed out waiting for acme challenge'')))
    | ContextDone \<Rightarrow> Some (Ret (Some CtxErr)))"

definition deliver :: "'w client \<Rightarrow> watcher \<Rightarrow> time \<Rightarrow> ctx \<Rightarrow> 'w \<Rightarrow> 'w" where
  "deliver c watcher t ctx v = snd (selectWatch c watcher t ctx v)"

definition event_at :: "'w client \<Rightarrow> watcher \<Rightarrow> time \<Rightarrow> ctx \<Rightarrow> 'w \<Rightarrow> nat \<Rightarrow> select_event" where
  "event_at c watcher t ctx v i =
     fst (selectWatch c watcher t ctx ((deliver c watcher t ctx ^^ i) v))"

lemma acme_body_verdict:
  "acme_body c watcher t ctx (s\<lparr>world := v\<rparr>) =
     (case acme_verdict (fst (selectWatch c watcher t ctx v)) of
        None \<Rightarrow> Inr (s\<lparr>world := deliver c watcher t ctx v\<rparr>)
      | Some r \<Rightarrow> Inl (r, s\<lparr>world := deliver c watcher t ctx v\<rparr>))"
proof (cases "selectWatch c watcher t ctx v")
  case (Pair e w)
  then show ?thesis
  proof (cases e)
    case (WatchEvent ty ob)
    then show ?thesis using Pair
      by (cases ty; cases ob)
         (auto simp: acme_body_def acme_verdict_def deliver_def contains_scan.scan_first
            split: outcome.split bool.split)
  qed (simp_all add: acme_body_def acme_verdict_def deliver_def)
qed

lemma acme_loop_iff:
  "for_loop (acme_body c watcher t ctx) s = Some (r, s') \<longleftrightarrow>
     (\<exists>i. (\<forall>j<i. acme_verdict (event_at c watcher t ctx (world s) j) = None) \<and>
        acme_verdict (event_at c watcher t ctx (world s) i) = Some r \<and>
        s' = s\<lparr>world := (deliver c watcher t ctx ^^ Suc i) (world s)\<rparr>)"
proof -
  have again: "acme_body c watcher t ctx (s\<lparr>world := v\<rparr>) = Inr u \<longleftrightarrow>
      acme_verdict (fst (selectWatch c watcher t ctx v)) = None \<and>
      u = s\<lparr>world := deliver c watcher t ctx v\<rparr>" for v u
    by (auto simp: acme_body_verdict split: option.split)
  have exit: "acme_body c watcher t ctx (s\<lparr>world := v\<rparr>) = Inl (r, s') \<longleftrightarrow>
      acme_verdict (fst (selectWatch c watcher t ctx v)) = Some r \<and>
      s' = s\<lparr>world := deliver c watcher t ctx v\<rparr>" for v
    by (auto simp: acme_body_verdict split: option.split)
  show ?thesis
    using for_loop_world [of "acme_body c watcher t ctx" s
        "\<lambda>v. acme_verdict (fst (selectWatch c watcher t ctx v)) = None" "deliver c watcher t ctx",
        OF again]
    by (simp add: exit event_at_def)
qed

lemma waitForAcmeChallenge_iff:
  assumes "watchIngresses c ctx ns name (world s) = (Inr watcher, w)"
    and "t = now c w + 10000000000"
  shows "waitForAcmeChallenge c ctx ns name s = Some (r, s') \<longleftrightarrow>
     (\<exists>i. (\<forall>j<i. acme_verdict (event_at c watcher t ctx w j) = None) \<and>
        acme_verdict (event_at c watcher t ctx w i) = Some r \<and>
        s' = s\<lparr>world := stopWatch c watcher ((deliver c watcher t ctx ^^ Suc i) w)\<rparr>)"
proof -
  have ten: "sint (10 * second) = 10000000000"
    by (simp add: second_def)
  have "waitForAcmeChallenge c ctx ns name s = Some (r, s') \<longleftrightarrow>
      (\<exists>s1. for_loop (acme_body c watcher t ctx) (s\<lparr>world := w\<rparr>) = Some (r, s1) \<and>
         s' = s1\<lparr>world := stopWatch c watcher (world s1)\<rparr>)"
    using assms ten by (auto simp: waitForAcmeChallenge_def Let_def split: option.split)
  then show ?thesis
    unfolding acme_loop_iff by (simp only: conj_assoc [symmetric] ex_image_conj) simp
qed

lemma waitForAcmeChallenge_world:
  assumes "waitForAcmeChallenge c ctx ns name s = Some (r, s')"
  obtains w where "s' = s\<lparr>world := w\<rparr>"
proof (cases "watchIngresses c ctx ns name (world s)")
  case (Pair got w)
  show thesis
  proof (cases got)
    case (Inl err)
    with Pair assms that [of w] show thesis by (auto simp: waitForAcmeChallenge_def)
  next
    case (Inr watcher)
    from waitForAcmeChallenge_iff [OF Pair [unfolded Inr] refl] assms that
    show thesis by blast
  qed
qed

section \<open>Properties\<close>

text \<open>
  C23. The operator's two scans for challenge paths, the function and the one written out in the
  polling loop, agree on every Ingress: when all rules have an HTTP part they answer whether some
  path of some rule contains \<open>.well-known/acme-challenge\<close>; any answer they give is that one; and
  when they panic, it is on a rule without an HTTP part.
\<close>

theorem challenge_scans_correct:
  "challengePathFound ing = isContainsAcmeChallenge ing \<and>
   (http_rules ing \<longrightarrow> isContainsAcmeChallenge ing = Ret (has_challenge ing)) \<and>
   (\<forall>b. isContainsAcmeChallenge ing = Ret b \<longrightarrow> b = has_challenge ing) \<and>
   (\<forall>p. isContainsAcmeChallenge ing = Panic p \<longrightarrow> p = NilDereference \<and> \<not> http_rules ing)"
proof (intro conjI allI impI)
  show "challengePathFound ing = isContainsAcmeChallenge ing"
    by (simp add: contains_scan.scan_first flag_scan.scan_first)
qed (use contains_scan.scan_http contains_scan.scan_Ret contains_scan.scan_Panic in blast)+

theorem challenge_scans_correct_witness:
  "http_rules example_ingress \<and> isContainsAcmeChallenge example_ingress = Ret (has_challenge example_ingress) \<and>
   challengePathFound (example_ingress\<lparr>Rules := Some [\<lparr>Host = [], HTTP = None\<rparr>]\<rparr>) = Panic NilDereference"
proof -
  have "http_rules example_ingress" by (simp add: http_rules_def example_ingress_def)
  with challenge_scans_correct [of example_ingress]
  have "http_rules example_ingress \<and> isContainsAcmeChallenge example_ingress = Ret (has_challenge example_ingress)"
    by blast
  moreover have "isContainsAcmeChallenge (example_ingress\<lparr>Rules := Some [\<lparr>Host = [], HTTP = None\<rparr>]\<rparr>)
      = Panic NilDereference"
    by (simp add: isContainsAcmeChallenge_def)
  ultimately show ?thesis
    using challenge_scans_correct [of "example_ingress\<lparr>Rules := Some [\<lparr>Host = [], HTTP = None\<rparr>]\<rparr>"]
    by (simp only: simp_thms)
qed

text \<open>
  \<open>waitForChallengeAbsence\<close> always returns, whatever the cluster does, provided the clock
  does not run backwards over an API call and sleeping takes as long as asked.
\<close>

lemma waitForChallengeAbsence_returns:
  assumes "clock_ok c"
  shows "\<exists>r s'. waitForChallengeAbsence c ctx timeout ns n s = Some (r, s')"
  using assms by (rule op_absence.wait_returns)

text \<open>
  C12. \<open>waitForChallengeAbsence\<close> polls the Ingress once a second and stops at the first poll that
  does not see a challenge path before the deadline: past the deadline it answers twice the
  timeout; if the fetch fails, the elapsed time with that error; if the scan panics, so does it;
  if no path contains the challenge, the elapsed time. Only the cluster and the clock move.
\<close>

theorem waitForChallengeAbsence_first_decisive_poll:
  "waitForChallengeAbsence c ctx timeout ns n s = Some (r, s') \<longleftrightarrow>
     (\<exists>i w. (let tctx = withTimeout ctx (now c (world s)) timeout;
                after = (\<lambda>j. (poll c tctx ns n ^^ j) (world s))
            in (\<forall>j<i. still_there c tctx ns n (after j)) \<and>
               absence_end c tctx timeout (now c (world s)) ns n (after i) r w) \<and>
        s' = s\<lparr>world := w\<rparr>)"
  by (rule op_absence.wait_iff)

theorem waitForChallengeAbsence_first_decisive_poll_witness:
  "waitForChallengeAbsence fake background (2 * second) ''shop'' ''web'' start_state =
     Some (Ret (4 * second, None), start_state\<lparr>world := small_cluster\<lparr>clk := 2002000000\<rparr>\<rparr>)"
proof -
  let ?t = "withTimeout background (now fake (world start_state)) (2 * second)"
  let ?after = "\<lambda>j. (poll fake ?t ''shop'' ''web'' ^^ j) (world start_state)"
  have t: "?t = Some 2000000000"
    by (simp add: withTimeout_def fake_simps second_def)
  note scan = example_scan
  have poll: "poll fake ?t ''shop'' ''web'' (small_cluster\<lparr>clk := k\<rparr>) = small_cluster\<lparr>clk := k + 1001000000\<rparr>"
    if "k < 2000000000" for k
    unfolding poll_def t using that by (simp add: fake_simps)
  have there: "still_there fake ?t ''shop'' ''web'' (small_cluster\<lparr>clk := k\<rparr>)"
    if "k < 2000000000" for k
    unfolding still_there_def t using that scan by (simp add: fake_simps)
  have zero: "small_cluster = small_cluster\<lparr>clk := 0\<rparr>" by (simp add: small_cluster_def)
  have at1: "?after 1 = small_cluster\<lparr>clk := 1001000000\<rparr>"
    using poll [of 0] zero by simp
  have at2: "?after 2 = small_cluster\<lparr>clk := 2002000000\<rparr>"
    using poll [of 1001000000] at1 by (simp add: numeral_2_eq_2)
  have "\<forall>j<2. still_there fake ?t ''shop'' ''web'' (?after j)"
    using there [of 0] there [of 1001000000] zero at1
    by (simp add: numeral_2_eq_2 All_less_Suc)
  moreover have "absence_end fake ?t (2 * second) (now fake (world start_state)) ''shop'' ''web''
      (?after 2) (Ret (2 * second * 2, None)) (?after 2)"
    by (rule timed_out) (unfold at2, unfold t, simp add: ctxDone_def fake_def)
  ultimately have "waitForChallengeAbsence fake background (2 * second) ''shop'' ''web'' start_state =
      Some (Ret (2 * second * 2, None), start_state\<lparr>world := ?after 2\<rparr>)"
    unfolding waitForChallengeAbsence_first_decisive_poll Let_def by blast
  then show ?thesis unfolding at2 by (simp add: second_def)
qed

text \<open>
  C18. \<open>waitForAcmeChallenge\<close>, once the watch is open, returns exactly when some delivered event
  is decisive, with the verdict of the first such event: success for an added or modified Ingress
  with a challenge path, an error for a deletion, a watch error, the closed channel, the ten
  second timer or the end of the context, a panic for an Ingress whose rules cannot be scanned.
  The watch is stopped on every one of these ways out.
\<close>

theorem waitForAcmeChallenge_first_decisive_event:
  assumes "watchIngresses c ctx ns name (world s) = (Inr watcher, w)"
    and "t = now c w + 10000000000"
  shows "waitForAcmeChallenge c ctx ns name s = Some (r, s') \<longleftrightarrow>
     (\<exists>i. (\<forall>j<i. acme_verdict (event_at c watcher t ctx w j) = None) \<and>
        acme_verdict (event_at c watcher t ctx w i) = Some r \<and>
        s' = s\<lparr>world := stopWatch c watcher ((deliver c watcher t ctx ^^ Suc i) w)\<rparr>)"
  using assms by (rule waitForAcmeChallenge_iff)

definition appearing :: "cluster base" where
  "appearing = start_state\<lparr>world := small_cluster\<lparr>script :=
     [WatchEvent Bookmark ObjOther, WatchEvent Modified (ObjIngress example_ingress)]\<rparr>\<rparr>"

theorem waitForAcmeChallenge_first_decisive_event_witness:
  "\<exists>s'. waitForAcmeChallenge fake background ''shop'' ''web'' appearing = Some (Ret None, s') \<and>
     stopped (world s') = 1"
proof -
  let ?w = "tick (world appearing)" and ?t = "now fake (tick (world appearing)) + 10000000000"
  have watch: "watchIngresses fake background ''shop'' ''web'' (world appearing) = (Inr 0, ?w)"
    by (simp add: fake_simps appearing_def)
  note scan = example_scan
  have "acme_verdict (event_at fake 0 ?t background ?w 0) = None"
    by (simp add: event_at_def appearing_def fake_simps acme_verdict_def)
  moreover have "acme_verdict (event_at fake 0 ?t background ?w 1) = Some (Ret None)"
    using scan by (simp add: event_at_def deliver_def appearing_def fake_simps acme_verdict_def)
  ultimately have "waitForAcmeChallenge fake background ''shop'' ''web'' appearing =
      Some (Ret None, appearing\<lparr>world := stopWatch fake 0 ((deliver fake 0 ?t background ^^ Suc 1) ?w)\<rparr>)"
    unfolding waitForAcmeChallenge_first_decisive_event [OF watch refl]
    by (intro exI [of _ 1]) simp
  then show ?thesis
    by (simp add: deliver_def appearing_def fake_simps)
qed

end
