(* ===== verification/Metrics.thy ===== *)
theory Metrics
  imports ClientEnv
begin

text \<open>
  \<open>metrics/metrics.go\<close>: the counter of renewals and the histogram of annotation update times,
  kept as the list of its observations, latest first. Together with the world and the named mutex
  they are the state of the operator.
\<close>

record 'w operator = "'w base" +
  CertificateRenewalsTotal :: nat
  AnnotationUpdatesDuration :: "rat list"

text \<open>
  The package initializer offers both collectors to the registry, whose answer is a parameter; a
  refused registration is logged and changes nothing else.
\<close>

definition metrics_init :: "(string \<Rightarrow> 'r \<Rightarrow> go_error option \<times> 'r) \<Rightarrow> 'r \<Rightarrow> 'r" where
  "metrics_init register r =
     (let (err1, r1) = register ''nimble_opti_adapter_certificate_renewals_total'' r;
          (err2, r2) = register ''nimble_opti_adapter_annotation_updates_duration_seconds'' r1
      in r2)"

definition IncrementCertificateRenewals :: "('w operator, unit) prog" where
  "IncrementCertificateRenewals =
     modifyP (\<lambda>s. s\<lparr>CertificateRenewalsTotal := CertificateRenewalsTotal s + 1\<rparr>)"

definition RecordAnnotationUpdateDuration :: "rat \<Rightarrow> ('w operator, unit) prog" where
  "RecordAnnotationUpdateDuration d =
     modifyP (\<lambda>s. s\<lparr>AnnotationUpdatesDuration := d # AnnotationUpdatesDuration s\<rparr>)"

text \<open>Renewals are never counted without an observation of their duration.\<close>

definition metrics_ok :: "'w operator \<Rightarrow> bool" where
  "metrics_ok s \<longleftrightarrow> CertificateRenewalsTotal s \<le> length (AnnotationUpdatesDuration s)"

lemma metrics_ok_world [simp]:
  "metrics_ok (s\<lparr>world := w\<rparr>) = metrics_ok s" "metrics_ok (s\<lparr>auditMutex := m\<rparr>) = metrics_ok s"
  by (simp_all add: metrics_ok_def)

definition operator_start :: "'w \<Rightarrow> 'w operator" where
  "operator_start w = \<lparr>world = w, auditMutex = NewNamedMutex, CertificateRenewalsTotal = 0,
     AnnotationUpdatesDuration = []\<rparr>"

lemma operator_start_simps [simp]:
  "world (operator_start w) = w" "mutex_ok (operator_start w)" "held_names (operator_start w) = {}"
  "metrics_ok (operator_start w)" "CertificateRenewalsTotal (operator_start w) = 0"
  using nm.inv_new nm.held_new
  by (simp_all add: operator_start_def mutex_ok_def held_names_def metrics_ok_def)

end
