(* ===== verification/Renewal.thy ===== *)
theory Renewal
  imports RenewalRound Challenge Metrics
begin

text \<open>
  The renewals of \<open>internal/controller/ingress_watcher.go\<close>: the \<open>NimbleOpti\<close> of a namespace,
  one renewal of an Ingress, the processing of an added Ingress, and the renewal of certificates
  that are about to expire.
\<close>

section \<open>The settings of a namespace\<close>

definition getOrCreateNimbleOpti ::
  "'w client \<Rightarrow> ctx \<Rightarrow> string \<Rightarrow> ('w operator, go_error + NimbleOpti) prog" where
  "getOrCreateNimbleOpti c ctx ns =
     bindP (call (getNimbleOpti c ctx ns ns)) (\<lambda>got.
       case got of
         Inr no \<Rightarrow> ret (Inr no)
       | Inl err \<Rightarrow>
           if isNotFound err then
             bindP (call (createNimbleOpti c ctx
                 \<lparr>no_Namespace = ns, no_Name = ns,
                  Spec = \<lparr>TargetNamespace = ns, CertificateRenewalThreshold = 30,
                          AnnotationRemovalDelay = 10\<rparr>,
                  Status = emptyStatus\<rparr>)) (\<lambda>created.
               case created of
                 Inl err' \<Rightarrow> ret (Inl (ApiErr err'))
               | Inr no \<Rightarrow> ret (Inr no))
           else ret (Inl (ApiErr err)))"

section \<open>One renewal\<close>

definition startCertificateRenewal ::
  "'w client \<Rightarrow> ctx \<Rightarrow> Ingress \<Rightarrow> NimbleOpti \<Rightarrow>
   ('w operator, bool \<times> go_error option \<times> Ingress) prog" where
  "startCertificateRenewal c ctx ing adapter =
     bindP (removeHTTPSAnnotation c ctx ing) (\<lambda>(err, ing1).
       case err of
         Some e \<Rightarrow> ret (False, Some e, ing1)
       | None \<Rightarrow>
           let timeout = AnnotationRemovalDelay (Spec adapter) * second in
           bindP (waitForChallengeAbsence c ctx timeout (Namespace ing1) (Name ing1)) (\<lambda>(successTime, err).
             case err of
               Some e \<Rightarrow> ret (False, Some e, ing1)
             | None \<Rightarrow>
                 bindP (if successTime = timeout * 2
                        then bindP (RecordAnnotationUpdateDuration (seconds timeout)) (\<lambda>_. ret False)
                        else bindP (RecordAnnotationUpdateDuration (seconds successTime)) (\<lambda>_. ret True))
                   (\<lambda>isRenew.
                     bindP (addHTTPSAnnotation c ctx ing1) (\<lambda>(err, ing2).
                       case err of
                         Some e \<Rightarrow> ret (isRenew, Some e, ing2)
                       | None \<Rightarrow>
                           bindP (if sint successTime \<le> sint timeout
                                  then IncrementCertificateRenewals else ret ())
                             (\<lambda>_. ret (isRenew, None, ing2))))))"

section \<open>Processing an Ingress\<close>

definition isAdapterEnabledLabel :: "Ingress \<Rightarrow> bool" where
  "isAdapterEnabledLabel ing \<longleftrightarrow>
     (case Labels ing ''nimble.opti.adapter/enabled'' of None \<Rightarrow> False | Some val \<Rightarrow> val = ''true'')"

definition isBackendHttpsAnnotations :: "Ingress \<Rightarrow> bool" where
  "isBackendHttpsAnnotations ing \<longleftrightarrow>
     (case annotations_of ing ''nginx.ingress.kubernetes.io/backend-protocol'' of
        None \<Rightarrow> False | Some val \<Rightarrow> val = ''HTTPS'')"

definition processIngressForRenewal ::
  "'w client \<Rightarrow> ctx \<Rightarrow> Ingress \<Rightarrow> ('w operator, bool \<times> go_error option \<times> Ingress) prog" where
  "processIngressForRenewal c ctx ing =
     bindP (getOrCreateNimbleOpti c ctx (Namespace ing)) (\<lambda>got.
       case got of
         Inl e \<Rightarrow> ret (False, Some e, ing)
       | Inr adapter \<Rightarrow>
           bindP (liftO (isContainsAcmeChallenge ing)) (\<lambda>found.
             if found then
               bindP (startCertificateRenewal c ctx ing adapter) (\<lambda>(isRenew, err, ing1).
                 case err of
                   Some e \<Rightarrow> ret (False, Some e, ing1)
                 | None \<Rightarrow> ret (isRenew, None, ing1))
             else ret (False, None, ing)))"

text \<open>
  The informer's handler. An object that is no Ingress is only logged: the nil pointer is then
  dereferenced by the label check.
\<close>

definition handleIngressAdd :: "'w client \<Rightarrow> obj \<Rightarrow> ('w operator, unit) prog" where
  "handleIngressAdd c ob =
     (case ob of
        ObjOther \<Rightarrow> panic NilDereference
      | ObjIngress ing \<Rightarrow>
          if isAdapterEnabledLabel ing \<and> isBackendHttpsAnnotations ing
          then bindP (processIngressForRenewal c background ing) (\<lambda>_. ret ())
          else ret ())"

definition addFunc :: "'w client \<Rightarrow> obj \<Rightarrow> ('w operator, unit) prog" where
  "addFunc c ob =
     (case metaNamespaceKey c ob of
        Inl err \<Rightarrow> ret ()
      | Inr key \<Rightarrow>
          bindP (readP (\<lambda>s. IsLocked key (auditMutex s))) (\<lambda>isLocked.
            if isLocked then ret () else handleIngressAdd c ob))"

section \<open>Certificates about to expire\<close>

definition certificateNotAfter :: "'w client \<Rightarrow> (string \<rightharpoonup> string) \<Rightarrow> go_error + time" where
  "certificateNotAfter c data =
     (case data ''tls.crt'' of
        None \<Rightarrow> Inl (NewErr ''missing tls.crt in secret'')
      | Some certData \<Rightarrow>
          if contains certData ''-----BEGIN CERTIFICATE-----'' then
            (case pemDecode c certData of
               None \<Rightarrow> Inl (NewErr ''failed to decode PEM block'')
             | Some (ty, bytes) \<Rightarrow>
                 if ty \<noteq> ''CERTIFICATE'' then Inl (NewErr ''failed to decode PEM block'')
                 else parseCertificate c bytes)
          else parseCertificate c certData)"

text \<open>The comparison with the threshold, given in days, in the code's 64-bit arithmetic.\<close>

definition within_threshold :: "duration \<Rightarrow> i64 \<Rightarrow> bool" where
  "within_threshold timeRemaining days \<longleftrightarrow> sint timeRemaining \<le> sint (days * 24 * hour)"

fun renew_expiring ::
  "'w client \<Rightarrow> ctx \<Rightarrow> IngressTLS list \<Rightarrow> Ingress \<Rightarrow>
   ('w operator, go_error option \<times> Ingress) prog" where
  "renew_expiring c ctx [] ing = ret (None, ing)"
| "renew_expiring c ctx (tlsSpec # rest) ing =
     bindP (call (getSecretData c ctx (Namespace ing) (SecretName tlsSpec))) (\<lambda>secret.
       case secret of
         Inl err \<Rightarrow> ret (Some (ApiErr err), ing)
       | Inr data \<Rightarrow>
           (case certificateNotAfter c data of
              Inl e \<Rightarrow> ret (Some e, ing)
            | Inr notAfter \<Rightarrow>
                bindP (nowP c) (\<lambda>t.
                  let timeRemaining = time_sub notAfter t in
                  bindP (call (getNimbleOpti c ctx (Namespace ing) (Namespace ing))) (\<lambda>got.
                    case got of
                      Inl err \<Rightarrow> ret (Some (ApiErr err), ing)
                    | Inr adapter \<Rightarrow>
                        if within_threshold timeRemaining (CertificateRenewalThreshold (Spec adapter)) then
                          bindP (call (deleteSecret c ctx (Namespace ing) (SecretName tlsSpec))) (\<lambda>deleted.
                            case deleted of
                              Some err \<Rightarrow> ret (Some (ApiErr err), ing)
                            | None \<Rightarrow>
                                bindP (waitForAcmeChallenge c ctx (Namespace ing) (Name ing)) (\<lambda>waited.
                                  case waited of
                                    Some e \<Rightarrow> ret (Some e, ing)
                                  | None \<Rightarrow>
                                      bindP (startCertificateRenewal c ctx ing adapter)
                                        (\<lambda>(_, err, ing1). renew_expiring c ctx rest ing1)))
                        else renew_expiring c ctx rest ing))))"

definition renewValidCertificateIfNecessary ::
  "'w client \<Rightarrow> ctx \<Rightarrow> Ingress \<Rightarrow> ('w operator, go_error option \<times> Ingress) prog" where
  "renewValidCertificateIfNecessary c ctx ing = renew_expiring c ctx (TLS ing) ing"

section \<open>The audit\<close>

fun audit_items :: "'w client \<Rightarrow> ctx \<Rightarrow> Ingress list \<Rightarrow> ('w operator, go_error option) prog" where
  "audit_items c ctx [] = ret None"
| "audit_items c ctx (ing # rest) =
     (if isAdapterEnabledLabel ing \<and> isBackendHttpsAnnotations ing then
        bindP (processIngressForRenewal c ctx ing) (\<lambda>(isRenew, err, ing1).
          case err of
            Some e \<Rightarrow> ret (Some e)
          | None \<Rightarrow>
              if \<not> isRenew then
                bindP (renewValidCertificateIfNecessary c ctx ing1) (\<lambda>(err, ing2).
                  case err of
                    Some e \<Rightarrow> ret (Some e)
                  | None \<Rightarrow> audit_items c ctx rest)
              else audit_items c ctx rest)
      else audit_items c ctx rest)"

definition auditIngressResources :: "'w client \<Rightarrow> ctx \<Rightarrow> ('w operator, go_error option) prog" where
  "auditIngressResources c ctx =
     bindP (call (listIngresses c ctx)) (\<lambda>got.
       case got of
         Inl err \<Rightarrow> ret (Some (ApiErr err))
       | Inr items \<Rightarrow> audit_items c ctx items)"

section \<open>The contract of a renewal\<close>

definition op_timeout :: "NimbleOpti \<Rightarrow> duration" where
  "op_timeout adapter = AnnotationRemovalDelay (Spec adapter) * second"

definition op_renewed :: "duration \<Rightarrow> duration \<Rightarrow> bool" where
  "op_renewed timeout d \<longleftrightarrow> d \<noteq> timeout * 2"

definition op_observe :: "duration \<Rightarrow> duration \<Rightarrow> 'w operator \<Rightarrow> 'w operator" where
  "op_observe timeout d s = s\<lparr>AnnotationUpdatesDuration :=
     seconds (if d = timeout * 2 then timeout else d) # AnnotationUpdatesDuration s\<rparr>"

definition op_count :: "duration \<Rightarrow> duration \<Rightarrow> 'w operator \<Rightarrow> 'w operator" where
  "op_count timeout d s = (if sint d \<le> sint timeout
     then s\<lparr>CertificateRenewalsTotal := CertificateRenewalsTotal s + 1\<rparr> else s)"

lemma op_frame [simp]:
  "world (op_observe t d s) = world s" "auditMutex (op_observe t d s) = auditMutex s"
  "world (op_count t d s) = world s" "auditMutex (op_count t d s) = auditMutex s"
  by (simp_all add: op_observe_def op_count_def)

lemma startCertificateRenewal_after_wait:
  assumes "removeHTTPSAnnotation c ctx ing s = Some (Ret (None, ing1), s1)"
    and "waitForChallengeAbsence c ctx (op_timeout adapter) (Namespace ing1) (Name ing1) s1 =
      Some (Ret (d, None), s2)"
    and "addHTTPSAnnotation c ctx ing1 (op_observe (op_timeout adapter) d s2) = Some (Ret (e, ing2), s3)"
  shows "startCertificateRenewal c ctx ing adapter s =
     Some (Ret (op_renewed (op_timeout adapter) d, e, ing2),
       case e of Some _ \<Rightarrow> s3 | None \<Rightarrow> op_count (op_timeout adapter) d s3)"
proof (cases "d = op_timeout adapter * 2")
  case True
  have "bindP (RecordAnnotationUpdateDuration (seconds (op_timeout adapter))) (\<lambda>_. ret False) s2 =
      Some (Ret False, op_observe (op_timeout adapter) d s2)"
    using True by (simp add: RecordAnnotationUpdateDuration_def op_observe_def)
  with assms True show ?thesis
    unfolding startCertificateRenewal_def Let_def op_timeout_def [symmetric]
    by (auto simp: op_renewed_def op_count_def IncrementCertificateRenewals_def split: option.split)
next
  case False
  have "bindP (RecordAnnotationUpdateDuration (seconds d)) (\<lambda>_. ret True) s2 =
      Some (Ret True, op_observe (op_timeout adapter) d s2)"
    using False by (simp add: RecordAnnotationUpdateDuration_def op_observe_def)
  with assms False show ?thesis
    unfolding startCertificateRenewal_def Let_def op_timeout_def [symmetric]
    by (auto simp: op_renewed_def op_count_def IncrementCertificateRenewals_def split: option.split)
qed

lemma startCertificateRenewal_early:
  "removeHTTPSAnnotation c ctx ing s = Some (Ret (Some e, ing1), s1) \<Longrightarrow>
     startCertificateRenewal c ctx ing adapter s = Some (Ret (False, Some e, ing1), s1)"
  "removeHTTPSAnnotation c ctx ing s = Some (Ret (None, ing1), s1) \<Longrightarrow>
     waitForChallengeAbsence c ctx (op_timeout adapter) (Namespace ing1) (Name ing1) s1 = Some (Panic p, s2) \<Longrightarrow>
     startCertificateRenewal c ctx ing adapter s = Some (Panic p, s2)"
  "removeHTTPSAnnotation c ctx ing s = Some (Ret (None, ing1), s1) \<Longrightarrow>
     waitForChallengeAbsence c ctx (op_timeout adapter) (Namespace ing1) (Name ing1) s1 =
       Some (Ret (d, Some e), s2) \<Longrightarrow>
     startCertificateRenewal c ctx ing adapter s = Some (Ret (False, Some e, ing1), s2)"
  "removeHTTPSAnnotation c ctx ing s = Some (Ret (None, ing1), s1) \<Longrightarrow>
     waitForChallengeAbsence c ctx (op_timeout adapter) (Namespace ing1) (Name ing1) s1 = None \<Longrightarrow>
     startCertificateRenewal c ctx ing adapter s = None"
  by (simp_all add: startCertificateRenewal_def op_timeout_def Let_def)

interpretation op_round: renewal_round removeHTTPSAnnotation without_https remove_refusal
  addHTTPSAnnotation with_https add_refusal waitForChallengeAbsence
  "\<lambda>c ctx adapter ing. startCertificateRenewal c ctx ing adapter" op_timeout
  op_renewed op_observe op_count
  by unfold_locales (simp_all add: startCertificateRenewal_early startCertificateRenewal_after_wait)

lemmas startCertificateRenewal_runs = op_round.renew_runs

section \<open>Facts for the properties\<close>

lemma renewal_counters:
  fixes s :: "'a operator"
  assumes ok: "mutex_ok s" and run: "startCertificateRenewal c ctx ing adapter s = Some (Ret (b, e, ing'), s')"
  shows "CertificateRenewalsTotal s' = CertificateRenewalsTotal s \<or>
     (\<exists>d. CertificateRenewalsTotal s' = CertificateRenewalsTotal s + 1 \<and> e = None \<and>
        b = op_renewed (op_timeout adapter) d \<and> sint d \<le> sint (op_timeout adapter))"
proof -
  let ?n = CertificateRenewalsTotal
  have rem: "?n s1 = ?n s" if "removeHTTPSAnnotation c ctx ing s = Some (r, s1)" for r s1
    by (rule op_annotations.remove.edit_returns [OF ok, of c ctx ing]) (use that in auto)
  have wait: "?n s2 = ?n s1" if "waitForChallengeAbsence c ctx t ns n s1 = Some (r, s2)"
    for t ns n r and s1 s2 :: "'a operator"
    using op_absence.wait_world [OF that] by auto
  have add: "?n s3 = ?n s2" if "mutex_ok s2" and "addHTTPSAnnotation c ctx i s2 = Some (r, s3)"
    for i r and s2 s3 :: "'a operator"
    by (rule op_annotations.add.edit_returns [OF that(1), of c ctx i]) (use that(2) in auto)
  have obs: "?n (op_observe t d s2) = ?n s2" for t d and s2 :: "'a operator"
    by (simp add: op_observe_def)
  show ?thesis
    using startCertificateRenewal_runs [OF ok, THEN iffD1, OF run]
  proof cases
    case (removal_failed e1)
    with rem show ?thesis by blast
  next
    case (wait_failed s1 d e1)
    with rem wait show ?thesis by metis
  next
    case (add_failed ing1 s1 d s2 e1)
    have "mutex_ok (op_observe (op_timeout adapter) d s2)"
      using op_round.wait_mutex [OF op_round.remove_mutex [OF ok add_failed(3)] add_failed(4)] by simp
    from add [OF this add_failed(5)] obs wait [OF add_failed(4)] rem [OF add_failed(3)]
    show ?thesis by simp
  next
    case (completed ing1 s1 d s2 s3)
    have "mutex_ok (op_observe (op_timeout adapter) d s2)"
      using op_round.wait_mutex [OF op_round.remove_mutex [OF ok completed(4)] completed(5)] by simp
    from add [OF this completed(6)] obs wait [OF completed(5)] rem [OF completed(4)]
    have "?n s3 = ?n s" by simp
    then show ?thesis using completed(1-3) by (auto simp: op_count_def)
  qed
qed

lemma audit_items_append:
  "audit_items c ctx (xs @ ys) =
     bindP (audit_items c ctx xs) (\<lambda>e. case e of Some e \<Rightarrow> ret (Some e) | None \<Rightarrow> audit_items c ctx ys)"
proof (induction xs)
  case Nil
  show ?case by (rule ext) simp
next
  case (Cons ing xs)
  show ?case
    by (rule ext) (auto simp: Cons.IH bindP_def split: option.splits prod.splits outcome.splits)
qed

section \<open>Example runs\<close>

definition solved_start :: "cluster operator" where
  "solved_start = operator_start (small_cluster\<lparr>solver := 1500000\<rparr>)"

lemma solved_start_mutex: "mutex_ok solved_start"
  by (simp add: solved_start_def)

definition ten_seconds :: NimbleOpti where
  "ten_seconds = \<lparr>no_Namespace = ''shop'', no_Name = ''shop'',
     Spec = \<lparr>TargetNamespace = ''shop'', CertificateRenewalThreshold = 30, AnnotationRemovalDelay = 10\<rparr>,
     Status = emptyStatus\<rparr>"

lemma ten_seconds_timeout [simp]: "op_timeout ten_seconds = 10000000000"
  by (simp add: op_timeout_def ten_seconds_def second_def)

lemma solved_start_run:
  "\<exists>ing' s'. startCertificateRenewal fake background example_ingress ten_seconds solved_start =
     Some (Ret (True, None, ing'), s') \<and> CertificateRenewalsTotal s' = 1"
proof -
  have t: "AnnotationRemovalDelay (Spec ten_seconds) * second = 10000000000"
    using ten_seconds_timeout by (simp add: op_timeout_def)
  show ?thesis
    unfolding startCertificateRenewal_def t
    by (simp add: removeHTTPSAnnotation_def addHTTPSAnnotation_def waitForChallengeAbsence_def
        absence_body_def for_loop_exit fake_simps solved_start_def operator_start_def Let_def nm_defs
        IngressKey_def example_ingress_def withTimeout_def challengePathFound_def time_sub_def
        RecordAnnotationUpdateDuration_def IncrementCertificateRenewals_def)
qed

text \<open>A cluster in which the fetch of the poll fails although the one before the edit worked.\<close>

definition flaky :: "cluster client" where
  "flaky = fake\<lparr>getIngress := (\<lambda>ctx ns n w. if clk w = 0 then (Inr example_ingress, tick w)
     else (Inl (OtherApiError ''connection refused''), tick w))\<rparr>"

lemma flaky_run:
  "\<exists>ing1 s1 d s2. removeHTTPSAnnotation flaky background example_ingress (operator_start small_cluster) =
      Some (Ret (None, ing1), s1) \<and>
     waitForChallengeAbsence flaky background (AnnotationRemovalDelay (Spec ten_seconds) * second)
       (Namespace ing1) (Name ing1) s1 =
       Some (Ret (d, Some (ApiErr (OtherApiError ''connection refused''))), s2)"
proof -
  obtain ing1 s1 where rem: "removeHTTPSAnnotation flaky background example_ingress (operator_start small_cluster) =
      Some (Ret (None, ing1), s1)" "clk (world s1) = 2000000"
    by (simp add: flaky_def removeHTTPSAnnotation_def fake_simps operator_start_def Let_def nm_defs
        IngressKey_def example_ingress_def)
  have "\<exists>d s2. waitForChallengeAbsence flaky background
      (AnnotationRemovalDelay (Spec ten_seconds) * second) (Namespace ing1) (Name ing1) s1 =
      Some (Ret (d, Some (ApiErr (OtherApiError ''connection refused''))), s2)"
    using rem(2) ten_seconds_timeout
    by (simp add: waitForChallengeAbsence_def absence_body_def for_loop_exit flaky_def fake_simps
        withTimeout_def Let_def op_timeout_def)
  with rem(1) show ?thesis by blast
qed

section \<open>The threshold in 64 bits\<close>

lemma sint_threshold:
  assumes "0 \<le> sint days" and "sint days \<le> 106751"
  shows "sint (days * 24 * hour) = sint days * 86400000000000"
proof -
  have a: "sint (days * 24) = sint days * 24"
    using sint_mult_64 [of days 24] assms by simp
  have "sint (days * 24 * hour) = sint (days * 24) * 3600000000000"
    using sint_mult_64 [of "days * 24" hour] assms a by (simp add: hour_def)
  then show ?thesis using a by simp
qed

section \<open>Properties\<close>

text \<open>The API server answers with the object that was named, and an update does not rename it.\<close>

definition names_respected :: "'w client \<Rightarrow> bool" where
  "names_respected c \<longleftrightarrow>
     (\<forall>ctx ns n w i w'. getIngress c ctx ns n w = (Inr i, w') \<longrightarrow> Namespace i = ns \<and> Name i = n) \<and>
     (\<forall>ctx i w i' w'. updateIngress c ctx i w = (Inr i', w') \<longrightarrow> Namespace i' = Namespace i \<and> Name i' = Name i)"

lemma removal_same_name:
  assumes "names_respected c" and "mutex_ok s" and "removeHTTPSAnnotation c ctx ing s = Some (Ret (None, ing1), s1)"
  shows "Namespace ing1 = Namespace ing" "Name ing1 = Name ing"
proof -
  obtain last w w2 where
    "getIngress c ctx (Namespace ing) (Name ing) (world s) = (Inr last, w)"
    "updateIngress c ctx (last\<lparr>Annotations := without_https (Annotations last)\<rparr>) w = (Inr ing1, w2)"
    using op_annotations.remove.edit_success [OF assms(2,3)] by metis
  then have "Namespace last = Namespace ing \<and> Name last = Name ing"
    "Namespace ing1 = Namespace last \<and> Name ing1 = Name last"
    using assms(1) unfolding names_respected_def by (blast, fastforce)
  then show "Namespace ing1 = Namespace ing" "Name ing1 = Name ing" by simp_all
qed

text \<open>
  C2. A renewal of the operator that reports no error has put the annotation back on the Ingress it
  was called for: after the removal and the wait it fetched the last version of that Ingress, by its
  namespace and name, and the last thing it did to the cluster is an accepted update of that version
  in which only the backend-protocol annotation is set, to HTTPS. No lock is left behind.
\<close>

theorem startCertificateRenewal_restores_annotation:
  assumes "names_respected c" and "mutex_ok s"
    and "startCertificateRenewal c ctx ing adapter s = Some (Ret (b, None, ing'), s')"
  shows "\<exists>ing1 s1 d s2 last w sent. removeHTTPSAnnotation c ctx ing s = Some (Ret (None, ing1), s1) \<and>
     waitForChallengeAbsence c ctx (AnnotationRemovalDelay (Spec adapter) * second)
       (Namespace ing) (Name ing) s1 = Some (Ret (d, None), s2) \<and>
     getIngress c ctx (Namespace ing) (Name ing) (world s2) = (Inr last, w) \<and>
     updateIngress c ctx sent w = (Inr ing', world s') \<and>
     Namespace sent = Namespace ing \<and> Name sent = Name ing \<and>
     annotations_of sent = (annotations_of last)(backendProtocol \<mapsto> ''HTTPS'') \<and>
     sent\<lparr>Annotations := Annotations last\<rparr> = last \<and> held_names s' = held_names s"
proof -
  obtain ing1 :: Ingress and s1 d s2 last w where
    rem: "removeHTTPSAnnotation c ctx ing s = Some (Ret (None, ing1), s1)"
    and wait: "waitForChallengeAbsence c ctx (op_timeout adapter) (Namespace ing1) (Name ing1) s1 = Some (Ret (d, None), s2)"
    and get: "getIngress c ctx (Namespace ing1) (Name ing1) (world s2) = (Inr last, w)"
    and upd: "updateIngress c ctx (last\<lparr>Annotations := with_https (Annotations last)\<rparr>) w = (Inr ing', world s')"
    and held: "held_names s' = held_names s"
    by (rule op_round.renew_success [OF assms(2,3)]) blast
  note same = removal_same_name [OF assms(1,2) rem]
  let ?sent = "last\<lparr>Annotations := with_https (Annotations last)\<rparr>"
  have "Namespace last = Namespace ing1 \<and> Name last = Name ing1"
    using assms(1) get unfolding names_respected_def by blast
  then have "Namespace ?sent = Namespace ing" "Name ?sent = Name ing" using same by simp_all
  moreover have "annotations_of ?sent = (annotations_of last)(backendProtocol \<mapsto> ''HTTPS'')"
    by (simp add: annotations_of_def with_https_def)
  moreover have "?sent\<lparr>Annotations := Annotations last\<rparr> = last" by simp
  ultimately show ?thesis
    using rem wait get upd held unfolding same op_timeout_def by blast
qed

text \<open>The cluster with objects that carry the names they are stored under.\<close>

definition named :: "cluster client" where
  "named = fake\<lparr>getIngress := (\<lambda>ctx ns n w. case getIngress fake ctx ns n w of
     (Inr i, w') \<Rightarrow> (Inr (i\<lparr>Namespace := ns, Name := n\<rparr>), w') | r \<Rightarrow> r)\<rparr>"

lemma named_respects: "names_respected named"
  unfolding names_respected_def
  by (auto simp: named_def fake_simps split: prod.splits sum.splits option.splits if_splits)

lemma named_run:
  "\<exists>ing' s'. startCertificateRenewal named background example_ingress ten_seconds solved_start =
     Some (Ret (True, None, ing'), s')"
proof -
  have t: "AnnotationRemovalDelay (Spec ten_seconds) * second = 10000000000"
    using ten_seconds_timeout by (simp add: op_timeout_def)
  show ?thesis
    unfolding startCertificateRenewal_def t
    by (simp add: named_def removeHTTPSAnnotation_def addHTTPSAnnotation_def waitForChallengeAbsence_def
        absence_body_def for_loop_exit fake_simps solved_start_def operator_start_def Let_def nm_defs
        IngressKey_def example_ingress_def withTimeout_def challengePathFound_def time_sub_def
        RecordAnnotationUpdateDuration_def IncrementCertificateRenewals_def)
qed

theorem startCertificateRenewal_restores_annotation_witness:
  "\<exists>sent w w' ing'. updateIngress named background sent w = (Inr ing', w') \<and> Name sent = ''web'' \<and>
     annotations_of sent backendProtocol = Some ''HTTPS''"
proof -
  obtain ing' s' where run: "startCertificateRenewal named background example_ingress ten_seconds solved_start =
     Some (Ret (True, None, ing'), s')" using named_run by blast
  from startCertificateRenewal_restores_annotation [OF named_respects solved_start_mutex run]
  obtain last w sent where "updateIngress named background sent w = (Inr ing', world s')"
    and "Name sent = Name example_ingress"
    and "annotations_of sent = (annotations_of last)(backendProtocol \<mapsto> ''HTTPS'')" by blast
  then show ?thesis
    by (intro exI [of _ sent] exI [of _ w] exI [of _ "world s'"] exI [of _ ing']) (simp add: example_ingress_def)
qed

text \<open>
  C3. The operator reports a renewal only after it has fetched, during the wait, a version of the
  Ingress without any challenge path; a wait that ran into its timeout is not reported as one,
  whatever the delay.
\<close>

theorem reported_renewal_saw_challenge_gone:
  assumes "mutex_ok s" and "startCertificateRenewal c ctx ing adapter s = Some (Ret (True, None, ing'), s')"
  shows "\<exists>ing1 s1 d s2 tctx v last. removeHTTPSAnnotation c ctx ing s = Some (Ret (None, ing1), s1) \<and>
     waitForChallengeAbsence c ctx (AnnotationRemovalDelay (Spec adapter) * second)
       (Namespace ing1) (Name ing1) s1 = Some (Ret (d, None), s2) \<and>
     getIngress c tctx (Namespace ing1) (Name ing1) v = (Inr last, world s2) \<and> \<not> has_challenge last"
proof -
  obtain ing1 :: Ingress and s1 d s2 where rem: "removeHTTPSAnnotation c ctx ing s = Some (Ret (None, ing1), s1)"
    and wait: "waitForChallengeAbsence c ctx (op_timeout adapter) (Namespace ing1) (Name ing1) s1 =
      Some (Ret (d, None), s2)" and d: "True = op_renewed (op_timeout adapter) d"
    by (rule op_round.renew_success [OF assms]) blast
  then have "d \<noteq> op_timeout adapter * 2" by (simp add: op_renewed_def)
  from op_absence.wait_absent [OF wait this] rem wait show ?thesis
    unfolding op_timeout_def by blast
qed

theorem reported_renewal_saw_challenge_gone_witness:
  "\<exists>tctx ns n v last w. getIngress fake tctx ns n v = (Inr last, w) \<and> \<not> has_challenge last"
proof -
  obtain ing' s' where "startCertificateRenewal fake background example_ingress ten_seconds solved_start =
     Some (Ret (True, None, ing'), s')" using solved_start_run by blast
  from reported_renewal_saw_challenge_gone [OF solved_start_mutex this] show ?thesis by blast
qed

text \<open>
  A renewal always returns, whatever the cluster answers, when sleeping takes time and no call
  moves the clock back.
\<close>

lemma startCertificateRenewal_returns:
  assumes "clock_ok c" and "mutex_ok s"
  shows "\<exists>r s'. startCertificateRenewal c ctx ing adapter s = Some (r, s')"
  using assms by (rule op_round.renew_returns)

text \<open>
  When the wait of a renewal ends in an error, the annotation stays off: the update that
  removed it was accepted, the renewal reports the error, and between that update and its return
  it only polls.
\<close>

theorem failed_wait_leaves_annotation_off:
  assumes "mutex_ok s"
    and "removeHTTPSAnnotation c ctx ing s = Some (Ret (None, ing1), s1)"
    and "waitForChallengeAbsence c ctx (AnnotationRemovalDelay (Spec adapter) * second)
           (Namespace ing1) (Name ing1) s1 = Some (Ret (d, Some e), s2)"
  shows "startCertificateRenewal c ctx ing adapter s = Some (Ret (False, Some e, ing1), s2) \<and>
     (\<exists>sent w. updateIngress c ctx sent w = (Inr ing1, world s1) \<and>
        annotations_of sent backendProtocol = None)"
proof
  show "startCertificateRenewal c ctx ing adapter s = Some (Ret (False, Some e, ing1), s2)"
    using op_round.renew_wait_failed [OF assms(1,2), of adapter d e s2] assms(3)
    by (simp add: op_timeout_def)
  obtain last w w2 m where
    "updateIngress c ctx (last\<lparr>Annotations := without_https (Annotations last)\<rparr>) w = (Inr ing1, w2)"
    "s1 = s\<lparr>world := w2, auditMutex := m\<rparr>"
    using op_annotations.remove.edit_success [OF assms(1,2)] by metis
  then show "\<exists>sent w. updateIngress c ctx sent w = (Inr ing1, world s1) \<and>
      annotations_of sent backendProtocol = None"
    by (intro exI [of _ "last\<lparr>Annotations := without_https (Annotations last)\<rparr>"] exI [of _ w])
       (auto simp: annotations_of_def without_https_def split: option.split)
qed

theorem failed_wait_leaves_annotation_off_witness:
  "\<exists>ing1 s2. startCertificateRenewal flaky background example_ingress ten_seconds
      (operator_start small_cluster) =
      Some (Ret (False, Some (ApiErr (OtherApiError ''connection refused'')), ing1), s2)"
proof -
  obtain ing1 s1 d s2 where
    rem: "removeHTTPSAnnotation flaky background example_ingress (operator_start small_cluster) =
      Some (Ret (None, ing1), s1)"
    and wait: "waitForChallengeAbsence flaky background
      (AnnotationRemovalDelay (Spec ten_seconds) * second) (Namespace ing1) (Name ing1) s1 =
      Some (Ret (d, Some (ApiErr (OtherApiError ''connection refused''))), s2)"
    using flaky_run by metis
  from failed_wait_leaves_annotation_off [OF operator_start_simps(2) rem wait] show ?thesis by blast
qed

text \<open>
  C20. For the delays of up to 4611686018 seconds, whose double does not leave the 64-bit range,
  the counter of renewals moves only by one, only when the renewal also reports success and no
  error; a wait that ran into its timeout is never counted.
\<close>

theorem counted_renewals_are_renewals:
  assumes "mutex_ok s" and "startCertificateRenewal c ctx ing adapter s = Some (Ret (b, e, ing'), s')"
    and "0 < sint (AnnotationRemovalDelay (Spec adapter))"
    and "sint (AnnotationRemovalDelay (Spec adapter)) \<le> 4611686018"
    and "CertificateRenewalsTotal s' \<noteq> CertificateRenewalsTotal s"
  shows "b \<and> e = None \<and> CertificateRenewalsTotal s' = CertificateRenewalsTotal s + 1"
proof -
  obtain d where d: "CertificateRenewalsTotal s' = CertificateRenewalsTotal s + 1" "e = None"
    "b = op_renewed (op_timeout adapter) d" "sint d \<le> sint (op_timeout adapter)"
    using renewal_counters [OF assms(1,2)] assms(5) by auto
  have t: "sint (op_timeout adapter) = sint (AnnotationRemovalDelay (Spec adapter)) * 1000000000"
    using sint_mult_64 [of "AnnotationRemovalDelay (Spec adapter)" second] assms(3,4)
    by (simp add: op_timeout_def)
  have "sint (op_timeout adapter * 2) = sint (op_timeout adapter) * 2"
    using sint_mult_64 [of "op_timeout adapter" 2] assms(3,4) by (simp add: t)
  with d(4) t assms(3) have "d \<noteq> op_timeout adapter * 2" by auto
  with d show ?thesis by (simp add: op_renewed_def)
qed

theorem counted_renewals_are_renewals_witness:
  "\<exists>b e ing' s'. startCertificateRenewal fake background example_ingress ten_seconds solved_start =
     Some (Ret (b, e, ing'), s') \<and> b \<and> e = None \<and> CertificateRenewalsTotal s' = 1"
proof -
  obtain ing' s' where run: "startCertificateRenewal fake background example_ingress ten_seconds solved_start =
     Some (Ret (True, None, ing'), s')" "CertificateRenewalsTotal s' = 1" using solved_start_run by blast
  have "mutex_ok solved_start" "CertificateRenewalsTotal solved_start = 0" by (simp_all add: solved_start_def)
  with counted_renewals_are_renewals [OF _ run(1)] run show ?thesis
    by (auto simp: ten_seconds_def)
qed

text \<open>
  C19. For thresholds between 0 and 106751 days the comparison in 64-bit nanoseconds is the one of
  the documentation: a certificate is due when it expires within the threshold, however far its
  expiry lies. One day more and the product wraps: a certificate that expires right now would not
  be due.
\<close>

theorem within_threshold_is_exact:
  "(0 \<le> sint days \<and> sint days \<le> 106751 \<longrightarrow>
      within_threshold (time_sub notAfter t) days \<longleftrightarrow> notAfter - t \<le> sint days * 86400000000000) \<and>
   \<not> within_threshold (time_sub t t) 106752"
proof
  have "sint (106752 * 24 * hour) = - 9223371273709551616" by (simp add: hour_def)
  then show "\<not> within_threshold (time_sub t t) 106752"
    by (simp add: within_threshold_def sint_time_sub)
  show "0 \<le> sint days \<and> sint days \<le> 106751 \<longrightarrow>
      within_threshold (time_sub notAfter t) days \<longleftrightarrow> notAfter - t \<le> sint days * 86400000000000"
    by (auto simp: within_threshold_def sint_time_sub sint_threshold)
qed

theorem within_threshold_is_exact_witness:
  "within_threshold (time_sub (86400000000000 * 30) 0) 30 \<and>
   \<not> within_threshold (time_sub (86400000000000 * 30 + 1) 0) 30"
  using within_threshold_is_exact [of 30 "86400000000000 * 30" 0]
    within_threshold_is_exact [of 30 "86400000000000 * 30 + 1" 0] by simp

end
