(* ===== verification/OperatorLoop.thy ===== *)
theory OperatorLoop
  imports Renewal
begin

text \<open>
  The operator as a whole: the informer's handler and the audit of \<open>StartAudit\<close> run on one
  state while the rest of the cluster changes. One step is one handler run to its end, a tick of
  the audit's ticker, a change of the world by others, or the closing of the stop channel. The
  invariant of the state holds in every reachable state.
\<close>

section \<open>The invariant of the operator\<close>

definition op_inv :: "'w operator \<Rightarrow> bool" where
  "op_inv s \<longleftrightarrow> mutex_ok s \<and> metrics_ok s"

lemma op_inv_world [simp]: "op_inv (s\<lparr>world := w\<rparr>) = op_inv s"
  by (simp add: op_inv_def)

lemma keeps_op_call: "keeps op_inv (call f)"
  by (rule keeps_call) simp

lemma keeps_op_now: "keeps op_inv (nowP c)"
  by (auto intro: keepsI)

lemma remove_metrics:
  "mutex_ok s \<Longrightarrow> removeHTTPSAnnotation c ctx ing s = Some (r, s') \<Longrightarrow> metrics_ok s' = metrics_ok s"
  by (rule op_annotations.remove.edit_returns [of s c ctx ing]) auto

lemma add_metrics:
  "mutex_ok s \<Longrightarrow> addHTTPSAnnotation c ctx ing s = Some (r, s') \<Longrightarrow>
     CertificateRenewalsTotal s' = CertificateRenewalsTotal s \<and>
     AnnotationUpdatesDuration s' = AnnotationUpdatesDuration s"
  by (rule op_annotations.add.edit_returns [of s c ctx ing]) auto

lemma wait_metrics:
  "waitForChallengeAbsence c ctx d ns n s = Some (r, s') \<Longrightarrow> metrics_ok s' = metrics_ok s"
  using op_absence.wait_world by fastforce

lemma renewal_keeps: "keeps op_inv (startCertificateRenewal c ctx ing adapter)"
proof (rule keepsI)
  fix s r s'
  assume inv: "op_inv s" and run: "startCertificateRenewal c ctx ing adapter s = Some (r, s')"
  then have ok: "mutex_ok s" and metrics: "metrics_ok s" by (simp_all add: op_inv_def)
  have "mutex_ok s'" using keepsD [OF op_round.renew_keeps_mutex ok run] .
  moreover have "metrics_ok s'"
    using startCertificateRenewal_runs [OF ok, THEN iffD1, OF run]
  proof cases
    case (removal_failed e ing1)
    then show ?thesis using remove_metrics [OF ok] metrics by blast
  next
    case (wait_panicked ing1 s1 p)
    then show ?thesis using remove_metrics [OF ok] wait_metrics metrics by blast
  next
    case (wait_failed ing1 s1 d e)
    then show ?thesis using remove_metrics [OF ok] wait_metrics metrics by blast
  next
    case (add_failed ing1 s1 d s2 e ing2)
    have "metrics_ok s2"
      using remove_metrics [OF ok add_failed(2)] wait_metrics [OF add_failed(3)] metrics by simp
    moreover have "mutex_ok (op_observe (op_timeout adapter) d s2)"
      using op_round.wait_mutex [OF op_round.remove_mutex [OF ok add_failed(2)] add_failed(3)] by simp
    ultimately show ?thesis
      using add_metrics [OF _ add_failed(4)] by (simp add: metrics_ok_def op_observe_def)
  next
    case (completed ing1 s1 d s2 ing2 s3)
    have "metrics_ok s2"
      using remove_metrics [OF ok completed(3)] wait_metrics [OF completed(4)] metrics by simp
    moreover have "mutex_ok (op_observe (op_timeout adapter) d s2)"
      using op_round.wait_mutex [OF op_round.remove_mutex [OF ok completed(3)] completed(4)] by simp
    ultimately show ?thesis
      using add_metrics [OF _ completed(5)] completed(2)
      by (simp add: metrics_ok_def op_observe_def op_count_def)
  qed
  ultimately show "op_inv s'" by (simp add: op_inv_def)
qed

lemma settings_keep: "keeps op_inv (getOrCreateNimbleOpti c ctx ns)"
  unfolding getOrCreateNimbleOpti_def by (intro keeps_intros keeps_op_call)

lemma process_keeps: "keeps op_inv (processIngressForRenewal c ctx ing)"
  unfolding processIngressForRenewal_def by (intro keeps_intros settings_keep renewal_keeps)

lemma handle_keeps: "keeps op_inv (handleIngressAdd c ob)"
  by (cases ob) (simp_all add: handleIngressAdd_def keeps_bindP process_keeps)

lemma addFunc_keeps: "keeps op_inv (addFunc c ob)"
  unfolding addFunc_def by (intro keeps_intros handle_keeps)

lemma acme_wait_keeps: "keeps op_inv (waitForAcmeChallenge c ctx ns n)"
  by (rule keepsI) (auto elim: waitForAcmeChallenge_world)

lemma expiring_keeps: "keeps op_inv (renew_expiring c ctx tls ing)"
proof (induction tls arbitrary: ing)
  case (Cons t tls)
  show ?case
    unfolding renew_expiring.simps
    by (intro keeps_intros keeps_op_call keeps_op_now acme_wait_keeps renewal_keeps Cons.IH)
next
  case Nil
  show ?case unfolding renew_expiring.simps by (rule keeps_ret)
qed

lemma audit_items_keep: "keeps op_inv (audit_items c ctx items)"
proof (induction items)
  case (Cons ing items)
  then show ?case
    unfolding audit_items.simps renewValidCertificateIfNecessary_def
    by (intro keeps_intros process_keeps expiring_keeps)
next
  case Nil
  show ?case unfolding audit_items.simps by (rule keeps_ret)
qed

lemma audit_keeps: "keeps op_inv (auditIngressResources c ctx)"
  unfolding auditIngressResources_def by (intro keeps_intros keeps_op_call audit_items_keep)

section \<open>The operator's steps\<close>

datatype op_status = Running | Crashed | Stopped

inductive operator_step ::
  "'w client \<Rightarrow> op_status \<times> 'w operator \<Rightarrow> op_status \<times> 'w operator \<Rightarrow> bool" for c where
  add_event: "addFunc c ob s = Some (Ret (), s') \<Longrightarrow> operator_step c (Running, s) (Running, s')"
| add_panics: "addFunc c ob s = Some (Panic p, s') \<Longrightarrow> operator_step c (Running, s) (Crashed, s')"
| audit_tick: "auditIngressResources c background s = Some (Ret e, s') \<Longrightarrow>
     operator_step c (Running, s) (Running, s')"
| audit_panics: "auditIngressResources c background s = Some (Panic p, s') \<Longrightarrow>
     operator_step c (Running, s) (Crashed, s')"
| others: "operator_step c (Running, s) (Running, s\<lparr>world := w\<rparr>)"
| stop: "operator_step c (Running, s) (Stopped, s)"

inductive_cases operator_stepE: "operator_step c (st, s) (st', s')"

inductive_simps operator_done [simp]:
  "operator_step c (Crashed, s) t" "operator_step c (Stopped, s) t"

inductive operator_reach :: "'w client \<Rightarrow> op_status \<times> 'w operator \<Rightarrow> bool" for c where
  op_init: "operator_reach c (Running, operator_start w)"
| op_next: "operator_reach c t \<Longrightarrow> operator_step c t u \<Longrightarrow> operator_reach c u"

lemma operator_step_inv: "operator_step c (st, s) (st', s') \<Longrightarrow> op_inv s \<Longrightarrow> op_inv s'"
  by (erule operator_stepE)
     (auto dest: keepsD [OF addFunc_keeps] keepsD [OF audit_keeps])

lemma operator_reach_inv: "operator_reach c t \<Longrightarrow> op_inv (snd t)"
proof (induction rule: operator_reach.induct)
  case (op_init w)
  show ?case by (simp add: op_inv_def)
next
  case (op_next t u)
  then show ?case by (cases t; cases u) (auto dest: operator_step_inv)
qed

section \<open>Returning\<close>

lemma returns_call: "returns_on op_inv (call f)"
  by (rule returns_onI [OF keeps_op_call]) (simp add: call_def split: prod.split)

lemma returns_now: "returns_on op_inv (nowP c)"
  by (rule returns_onI [OF keeps_op_now]) simp

lemma returns_settings: "returns_on op_inv (getOrCreateNimbleOpti c ctx ns)"
  unfolding getOrCreateNimbleOpti_def by (intro returns_intros returns_call)

lemma returns_renewal:
  assumes "clock_ok c"
  shows "returns_on op_inv (startCertificateRenewal c ctx ing adapter)"
  using op_round.renew_returns [OF assms]
  by (intro returns_onI [OF renewal_keeps]) (simp add: op_inv_def)

lemma returns_process: "clock_ok c \<Longrightarrow> returns_on op_inv (processIngressForRenewal c ctx ing)"
  unfolding processIngressForRenewal_def by (intro returns_intros returns_settings returns_renewal)

lemma returns_addFunc: "clock_ok c \<Longrightarrow> returns_on op_inv (addFunc c ob)"
  unfolding addFunc_def handleIngressAdd_def
  by (cases ob) (simp_all add: returns_intros returns_process split: sum.split)

text \<open>The timer of a watch fires, or another event ends it, whatever else is delivered.\<close>

definition watch_ends :: "'w client \<Rightarrow> bool" where
  "watch_ends c \<longleftrightarrow> (\<forall>watcher t ctx w. \<exists>i. acme_verdict (event_at c watcher t ctx w i) \<noteq> None)"

lemma returns_acme_wait:
  assumes "watch_ends c"
  shows "returns_on op_inv (waitForAcmeChallenge c ctx ns n)"
proof (rule returns_onI [OF acme_wait_keeps])
  fix s :: "'a operator"
  obtain got w where open_watch: "watchIngresses c ctx ns n (world s) = (got, w)"
    by (cases "watchIngresses c ctx ns n (world s)")
  show "\<exists>r s'. waitForAcmeChallenge c ctx ns n s = Some (r, s')"
  proof (cases got)
    case (Inl err)
    with open_watch show ?thesis by (simp add: waitForAcmeChallenge_def)
  next
    case (Inr watcher)
    let ?t = "now c w + 10000000000"
    let ?v = "\<lambda>i. acme_verdict (event_at c watcher ?t ctx w i)"
    obtain i where "?v i \<noteq> None" "\<forall>j<i. ?v j = None"
      using assms exists_least_iff [of "\<lambda>i. ?v i \<noteq> None"] by (auto simp: watch_ends_def)
    then obtain r where "?v i = Some r" "\<forall>j<i. ?v j = None" by auto
    then show ?thesis
      using waitForAcmeChallenge_iff [OF open_watch [unfolded Inr] refl] by blast
  qed
qed

lemma returns_expiring: "clock_ok c \<Longrightarrow> watch_ends c \<Longrightarrow> returns_on op_inv (renew_expiring c ctx tls ing)"
proof (induction tls arbitrary: ing)
  case (Cons t tls)
  then show ?case
    unfolding renew_expiring.simps
    by (intro returns_intros returns_call returns_now returns_acme_wait returns_renewal)
next
  case Nil
  show ?case unfolding renew_expiring.simps by (rule returns_ret)
qed

lemma returns_audit_items: "clock_ok c \<Longrightarrow> watch_ends c \<Longrightarrow> returns_on op_inv (audit_items c ctx items)"
proof (induction items)
  case (Cons ing items)
  then show ?case
    unfolding audit_items.simps renewValidCertificateIfNecessary_def
    by (intro returns_intros returns_process returns_expiring)
next
  case Nil
  show ?case unfolding audit_items.simps by (rule returns_ret)
qed

lemma returns_audit: "clock_ok c \<Longrightarrow> watch_ends c \<Longrightarrow> returns_on op_inv (auditIngressResources c ctx)"
  unfolding auditIngressResources_def by (intro returns_intros returns_call returns_audit_items)

lemma fake_watch_ends: "watch_ends fake"
  unfolding watch_ends_def
proof (intro allI)
  fix watcher t ctx and w :: cluster
  show "\<exists>i. acme_verdict (event_at fake watcher t ctx w i) \<noteq> None"
  proof (induction "length (script w)" arbitrary: w)
    case 0
    then have "acme_verdict (event_at fake watcher t ctx w 0) \<noteq> None"
      by (simp add: event_at_def fake_simps acme_verdict_def)
    then show ?case by blast
  next
    case (Suc n)
    then obtain e es where "script w = e # es" "n = length es" by (cases "script w") auto
    then have "n = length (script (deliver fake watcher t ctx w))" by (simp add: deliver_def fake_simps)
    from Suc(1) [OF this] obtain i
      where "acme_verdict (event_at fake watcher t ctx (deliver fake watcher t ctx w) i) \<noteq> None" by blast
    then have "acme_verdict (event_at fake watcher t ctx w (Suc i)) \<noteq> None"
      by (simp add: event_at_def funpow_swap1)
    then show ?case by blast
  qed
qed

section \<open>Ineligible Ingress objects\<close>

definition eligible :: "Ingress \<Rightarrow> bool" where
  "eligible ing \<longleftrightarrow> isAdapterEnabledLabel ing \<and> isBackendHttpsAnnotations ing"

lemma audit_items_filter: "audit_items c ctx items = audit_items c ctx (filter eligible items)"
proof (induction items)
  case (Cons ing items)
  show ?case
  proof (cases "eligible ing")
    case True
    then have kept: "filter eligible (ing # items) = ing # filter eligible items" by simp
    show ?thesis unfolding kept audit_items.simps Cons.IH [symmetric] by (rule refl)
  next
    case False
    then have "audit_items c ctx (ing # items) = audit_items c ctx items" by (auto simp: eligible_def)
    with False Cons.IH show ?thesis by simp
  qed
qed simp

section \<open>Panics\<close>

text \<open>Every version of an Ingress that the server hands out has an HTTP part in each rule.\<close>

definition serves_http :: "'w client \<Rightarrow> bool" where
  "serves_http c \<longleftrightarrow> (\<forall>ctx ns n w ing w'. getIngress c ctx ns n w = (Inr ing, w') \<longrightarrow> http_rules ing)"

lemma wait_panics:
  assumes "waitForChallengeAbsence c ctx d ns n s = Some (Panic p, s')"
  shows "p = NilDereference \<and> \<not> serves_http c"
proof -
  obtain v w where "absence_end c (withTimeout ctx (now c (world s)) d) d (now c (world s)) ns n v (Panic p) w"
    by (rule op_absence.wait_result [OF assms])
  then obtain ing w' ctx' where "getIngress c ctx' ns n v = (Inr ing, w')"
    and panic: "first_decisive (elems (Rules ing)) = Panic p"
    by cases auto
  moreover have "p = NilDereference \<and> \<not> http_rules ing"
    using contains_scan.scan_Panic [of ing p] panic by (simp add: contains_scan.scan_first)
  ultimately show ?thesis unfolding serves_http_def by blast
qed

lemma renewal_panics:
  assumes "mutex_ok s" and "startCertificateRenewal c ctx ing adapter s = Some (Panic p, s')"
  shows "p = NilDereference \<and> \<not> serves_http c"
  using startCertificateRenewal_runs [OF assms(1), THEN iffD1, OF assms(2)]
  by cases (rule wait_panics)

lemma settings_outcome:
  "\<exists>q w. getOrCreateNimbleOpti c ctx ns s = Some (Ret q, s\<lparr>world := w\<rparr>)"
proof -
  obtain got w where get: "getNimbleOpti c ctx ns ns (world s) = (got, w)"
    by (cases "getNimbleOpti c ctx ns ns (world s)")
  show ?thesis
  proof (cases got)
    case (Inr no)
    with get show ?thesis by (auto simp: getOrCreateNimbleOpti_def)
  next
    case (Inl err)
    with get show ?thesis
      by (cases "isNotFound err") (auto simp: getOrCreateNimbleOpti_def split: prod.split sum.split)
  qed
qed

lemma process_panics:
  assumes "op_inv s" and "processIngressForRenewal c ctx ing s = Some (Panic p, s')"
  shows "p = NilDereference \<and> \<not> (serves_http c \<and> http_rules ing)"
proof -
  obtain q t where settings: "getOrCreateNimbleOpti c ctx (Namespace ing) s = Some (Ret q, t)"
    using settings_outcome [of c ctx "Namespace ing" s] by blast
  have "mutex_ok t" using keepsD [OF settings_keep assms(1) settings] by (simp add: op_inv_def)
  moreover obtain adapter where "q = Inr adapter" using settings assms(2)
    by (cases q) (simp_all add: processIngressForRenewal_def)
  ultimately show ?thesis
    using settings assms(2) contains_scan.scan_Panic [of ing p] renewal_panics [of t c ctx ing adapter p]
    by (auto simp: processIngressForRenewal_def elim!: bindP_SomeE split: outcome.splits if_splits option.splits)
qed

lemma addFunc_panics:
  assumes "op_inv s" and "addFunc c ob s = Some (Panic p, s')"
  shows "p = NilDereference \<and> \<not> (serves_http c \<and> (\<exists>ing. ob = ObjIngress ing \<and> http_rules ing))"
  using assms(2) process_panics [OF assms(1)]
  by (auto simp: addFunc_def handleIngressAdd_def elim!: bindP_SomeE split: sum.splits if_splits obj.splits)

section \<open>Properties\<close>

text \<open>
  Between handlers, in every state the operator can reach through any sequence of informer events,
  audits and changes of the cluster, each lock's token agrees with its flag, and the renewals counted are at
  most the annotation updates observed.
\<close>

theorem operator_reachable_invariant:
  assumes "operator_reach c (st, s)"
  shows "mutex_ok s \<and> CertificateRenewalsTotal s \<le> length (AnnotationUpdatesDuration s)"
  using operator_reach_inv [OF assms] by (simp add: op_inv_def metrics_ok_def)

theorem operator_reachable_invariant_witness:
  "mutex_ok (operator_start small_cluster) \<and>
   CertificateRenewalsTotal (operator_start small_cluster) \<le>
     length (AnnotationUpdatesDuration (operator_start small_cluster))"
  using operator_reachable_invariant [OF op_init [of fake small_cluster]] .

text \<open>
  C30. The handler of an added object never blocks the informer: with a clock that sleeping moves on
  and no call moves back, from every state in which lock tokens agree with flags, and whatever the
  cluster answers, it returns or panics, and leaves such a state. The only panic is a nil dereference,
  and there is none when the object is an Ingress that has, like every version the server hands out,
  an HTTP part in each of its rules.
\<close>

theorem addFunc_returns:
  assumes "clock_ok c" and "op_inv s"
  shows "\<exists>r s'. addFunc c ob s = Some (r, s') \<and> op_inv s' \<and> (r = Ret () \<or> r = Panic NilDereference) \<and>
     (serves_http c \<longrightarrow> (\<exists>ing. ob = ObjIngress ing \<and> http_rules ing) \<longrightarrow> r = Ret ())"
proof -
  obtain r s' where run: "addFunc c ob s = Some (r, s')"
    using returns_onD [OF returns_addFunc [OF assms(1)] assms(2)] by blast
  have "r = Ret () \<or> (\<exists>p. r = Panic p)" by (cases r) auto
  with run keepsD [OF addFunc_keeps assms(2) run] addFunc_panics [OF assms(2), of c ob _ s'] show ?thesis by auto
qed

definition no_rules :: "cluster client" where
  "no_rules = fake\<lparr>getIngress := (\<lambda>ctx ns n w. case getIngress fake ctx ns n w of
     (Inr i, w') \<Rightarrow> (Inr (i\<lparr>Rules := Some []\<rparr>), w') | r \<Rightarrow> r)\<rparr>"

theorem addFunc_returns_witness:
  "\<exists>s'. addFunc no_rules (ObjIngress example_ingress) (operator_start small_cluster) = Some (Ret (), s')"
proof -
  have "clock_ok no_rules"
    by (auto simp: clock_ok_def no_rules_def fake_simps split: prod.split sum.split option.split)
  moreover have "op_inv (operator_start small_cluster)" by (simp add: op_inv_def)
  moreover have "serves_http no_rules"
    by (auto simp: serves_http_def no_rules_def http_rules_def split: prod.splits sum.splits)
  moreover have "http_rules example_ingress" by (simp add: http_rules_def example_ingress_def)
  ultimately show ?thesis
    using addFunc_returns [of no_rules "operator_start small_cluster" "ObjIngress example_ingress"] by auto
qed

text \<open>
  C14. The audit always returns when, besides, every watch is ended by its timer or an earlier
  decisive event.
\<close>

theorem auditIngressResources_returns:
  assumes "clock_ok c" and "watch_ends c" and "operator_reach c (st, s)"
  shows "\<exists>r s'. auditIngressResources c ctx s = Some (r, s')"
  using returns_onD [OF returns_audit [OF assms(1,2)]] operator_reach_inv [OF assms(3)] by simp

theorem auditIngressResources_returns_witness:
  "\<exists>r s'. auditIngressResources fake background (operator_start small_cluster) = Some (r, s')"
  using auditIngressResources_returns [OF fake_clock_ok fake_watch_ends op_init [of fake small_cluster]]
  by blast

text \<open>
  The audit concerns the Ingress objects that carry the label \<open>nimble.opti.adapter/enabled\<close>
  with value true and the HTTPS annotation, and no others: leaving the others out of the list
  changes neither its result nor any of its effects.
\<close>

theorem audit_ignores_ineligible:
  "audit_items c ctx items = audit_items c ctx (filter eligible items)"
  by (rule audit_items_filter)

text \<open>
  The handler of an added Ingress does nothing at all when the lock of the Ingress is held or
  the Ingress is not eligible.
\<close>

lemma addFunc_skips:
  assumes "metaNamespaceKey c (ObjIngress ing) = Inr key"
    and "key \<in> held_names s \<or> \<not> eligible ing"
  shows "addFunc c (ObjIngress ing) s = Some (Ret (), s)"
  using assms by (auto simp: addFunc_def handleIngressAdd_def eligible_def held_names_def nm.is_locked)

text \<open>
  One failing Ingress ends the audit: the Ingress objects after it in the list are neither
  read nor renewed in that audit, and its error is the result.
\<close>

lemma audit_stops_at_first_failure:
  assumes "audit_items c ctx xs s = Some (Ret None, s1)" and "eligible ing"
    and "processIngressForRenewal c ctx ing s1 = Some (Ret (b, Some e, ing'), s2)"
  shows "audit_items c ctx (xs @ ing # ys) s = Some (Ret (Some e), s2)"
  using assms by (simp add: audit_items_append eligible_def)



text \<open>
  The settings of a namespace are the existing \<open>NimbleOpti\<close>, which is then only read; where
  there is none, one with a threshold of 30 days and a delay of 10 seconds is created under the
  name of the namespace; any other failure of the read creates nothing.
\<close>

lemma getOrCreateNimbleOpti_settings:
  assumes "getOrCreateNimbleOpti c ctx ns s = Some (Ret (Inr no), s')"
    and "\<And>new v no' w. createNimbleOpti c ctx new v = (Inr no', w) \<Longrightarrow> no' = new"
  shows "getNimbleOpti c ctx ns ns (world s) = (Inr no, world s') \<or>
     no_Namespace no = ns \<and> no_Name no = ns \<and>
     CertificateRenewalThreshold (Spec no) = 30 \<and> AnnotationRemovalDelay (Spec no) = 10 \<and>
     (\<exists>w. getNimbleOpti c ctx ns ns (world s) = (Inl NotFound, w) \<and>
          createNimbleOpti c ctx no w = (Inr no, world s'))"
proof -
  obtain got w where get: "getNimbleOpti c ctx ns ns (world s) = (got, w)"
    by (cases "getNimbleOpti c ctx ns ns (world s)")
  show ?thesis
  proof (cases got)
    case (Inr no')
    with get assms(1) show ?thesis by (auto simp: getOrCreateNimbleOpti_def)
  next
    case (Inl err)
    let ?new = "\<lparr>no_Namespace = ns, no_Name = ns, Spec = \<lparr>TargetNamespace = ns,
      CertificateRenewalThreshold = 30, AnnotationRemovalDelay = 10\<rparr>, Status = emptyStatus\<rparr>"
    obtain made w' where create: "createNimbleOpti c ctx ?new w = (made, w')"
      by (cases "createNimbleOpti c ctx ?new w")
    from Inl get create assms(1) have "err = NotFound" "made = Inr no" "world s' = w'"
      by (auto simp: getOrCreateNimbleOpti_def isNotFound_def split: if_splits sum.splits)
    moreover have "no = ?new" using assms(2) create \<open>made = Inr no\<close> by simp
    ultimately show ?thesis using get Inl create by simp
  qed
qed

end
