(* ===== verification/OperatorSteps.thy ===== *)
theory OperatorSteps
  imports Machines OperatorLoop
begin

text \<open>
  The operator's functions as machines of small steps, one call of the API, one method of the named
  mutex, one metric or one sleep at a time: what a scheduler can interleave. The points of each
  machine are a datatype of their own, in the order of the code; a call of another function of the
  operator is a frame. Each machine is shown to compute the function it stands for.
\<close>

section \<open>The annotation operations\<close>

datatype edit_pc =
    EditTry Ingress
  | EditGet string Ingress
  | EditUpdate string Ingress
  | EditUnlock string "go_error option" Ingress
  | EditDone "(go_error option \<times> Ingress) outcome"

fun edit_result :: "edit_pc \<Rightarrow> (go_error option \<times> Ingress) outcome option" where
  "edit_result (EditDone r) = Some r"
| "edit_result (EditTry ing) = None"
| "edit_result (EditGet key ing) = None"
| "edit_result (EditUpdate key ing) = None"
| "edit_result (EditUnlock key err ing) = None"

fun edit_step :: "(string \<Rightarrow> string) \<Rightarrow> (annotations \<Rightarrow> annotations) \<Rightarrow> 'w client \<Rightarrow> ctx \<Rightarrow>
    (edit_pc, ('w, 'x) base_scheme) machine" where
  "edit_step refusal change c ctx (EditTry ing) s =
     (case TryLock (IngressKey ing) (auditMutex s) of (isLock, m) \<Rightarrow>
        Some (if isLock then EditGet (IngressKey ing) ing
              else EditDone (Ret (Some (NewErr (refusal (IngressKey ing))), ing)),
              s\<lparr>auditMutex := m\<rparr>))"
| "edit_step refusal change c ctx (EditGet key ing) s =
     (case getIngress c ctx (Namespace ing) (Name ing) (world s) of (got, w) \<Rightarrow>
        Some (case got of
            Inl err \<Rightarrow> EditDone (Ret (Some (ApiErr err), ing))
          | Inr ing1 \<Rightarrow> EditUpdate key (ing1\<lparr>Annotations := change (Annotations ing1)\<rparr>),
          s\<lparr>world := w\<rparr>))"
| "edit_step refusal change c ctx (EditUpdate key ing) s =
     (case updateIngress c ctx ing (world s) of (updated, w) \<Rightarrow>
        Some (case updated of
            Inl err \<Rightarrow> EditUnlock key (Some (ApiErr err)) ing
          | Inr ing1 \<Rightarrow> EditUnlock key None ing1,
          s\<lparr>world := w\<rparr>))"
| "edit_step refusal change c ctx (EditUnlock key err ing) s =
     (case Unlock key (auditMutex s) of
        None \<Rightarrow> None
      | Some m \<Rightarrow> Some (EditDone (Ret (err, ing)), s\<lparr>auditMutex := m\<rparr>))"
| "edit_step refusal change c ctx (EditDone r) s = None"

definition remove_step :: "'w client \<Rightarrow> ctx \<Rightarrow> (edit_pc, ('w, 'x) base_scheme) machine" where
  "remove_step = edit_step (\<lambda>key. ''key '' @ key @ '' is locked, and it should be unlocked'')
     (map_option (\<lambda>m. m(backendProtocol := None)))"

definition add_step :: "'w client \<Rightarrow> ctx \<Rightarrow> (edit_pc, ('w, 'x) base_scheme) machine" where
  "add_step = edit_step (\<lambda>key. ''key '' @ key @ '' is locked, and should be unlocked'')
     (\<lambda>a. Some ((case a of None \<Rightarrow> Map.empty | Some m \<Rightarrow> m)(backendProtocol \<mapsto> ''HTTPS'')))"

section \<open>The waits\<close>

datatype wait_pc =
    WaitStart
  | WaitSelect time ctx
  | WaitGet time ctx
  | WaitSleep time ctx
  | WaitDone "(duration \<times> go_error option) outcome"

fun wait_result :: "wait_pc \<Rightarrow> (duration \<times> go_error option) outcome option" where
  "wait_result (WaitDone r) = Some r"
| "wait_result WaitStart = None"
| "wait_result (WaitSelect t d) = None"
| "wait_result (WaitGet t d) = None"
| "wait_result (WaitSleep t d) = None"

fun wait_step :: "'w client \<Rightarrow> ctx \<Rightarrow> duration \<Rightarrow> string \<Rightarrow> string \<Rightarrow>
    (wait_pc, ('w, 'x) base_scheme) machine" where
  "wait_step c ctx timeout ns n WaitStart s =
     Some (WaitSelect (now c (world s)) (withTimeout ctx (now c (world s)) timeout), s)"
| "wait_step c ctx timeout ns n (WaitSelect start timeoutCtx) s =
     Some (if ctxDone timeoutCtx (now c (world s)) then WaitDone (Ret (timeout * 2, None))
           else WaitGet start timeoutCtx, s)"
| "wait_step c ctx timeout ns n (WaitGet start timeoutCtx) s =
     (case getIngress c timeoutCtx ns n (world s) of (got, w) \<Rightarrow>
        Some (case got of
            Inl err \<Rightarrow> WaitDone (Ret (time_sub (now c w) start, Some (ApiErr err)))
          | Inr ingress \<Rightarrow>
              (case challengePathFound ingress of
                 Panic p \<Rightarrow> WaitDone (Panic p)
               | Ret pathFound \<Rightarrow>
                   if \<not> pathFound then WaitDone (Ret (time_sub (now c w) start, None))
                   else WaitSleep start timeoutCtx),
          s\<lparr>world := w\<rparr>))"
| "wait_step c ctx timeout ns n (WaitSleep start timeoutCtx) s =
     Some (WaitSelect start timeoutCtx, s\<lparr>world := sleep c second (world s)\<rparr>)"
| "wait_step c ctx timeout ns n (WaitDone r) s = None"

datatype acme_pc =
    AcmeOpen
  | AcmeSelect watcher time
  | AcmeStop watcher "go_error option outcome"
  | AcmeDone "go_error option outcome"

fun acme_result :: "acme_pc \<Rightarrow> go_error option outcome option" where
  "acme_result (AcmeDone r) = Some r"
| "acme_result AcmeOpen = None"
| "acme_result (AcmeSelect v t) = None"
| "acme_result (AcmeStop v r) = None"

text \<open>What one event means to the watch: the end with a result, or another round.\<close>

definition acme_decides :: "select_event \<Rightarrow> go_error option outcome option" where
  "acme_decides event =
     (case event of
        WatchClosed \<Rightarrow> Some (Ret (Some (NewErr ''watch channel closed'')))
      | WatchEvent ty ob \<Rightarrow>
          if ty = Added \<or> ty = Modified then
            (case ob of
               ObjIngress ing \<Rightarrow>
                 (case isContainsAcmeChallenge ing of
                    Panic p \<Rightarrow> Some (Panic p)
                  | Ret True \<Rightarrow> Some (Ret None)
                  | Ret False \<Rightarrow> None)
             | ObjOther \<Rightarrow> None)
          else if ty = Deleted then Some (Ret (Some (NewErr ''ingress deleted before acme challenge appeared'')))
          else if ty = Error then Some (Ret (Some (NewErr ''error watching ingress'')))
          else None
      | TimerFired \<Rightarrow> Some (Ret (Some (NewErr ''timed out waiting for acme challenge'')))
      | ContextDone \<Rightarrow> Some (Ret (Some CtxErr)))"

fun acme_step :: "'w client \<Rightarrow> ctx \<Rightarrow> string \<Rightarrow> string \<Rightarrow> (acme_pc, ('w, 'x) base_scheme) machine" where
  "acme_step c ctx ns n AcmeOpen s =
     (case watchIngresses c ctx ns n (world s) of (got, w) \<Rightarrow>
        Some (case got of
            Inl err \<Rightarrow> AcmeDone (Ret (Some (ApiErr err)))
          | Inr v \<Rightarrow> AcmeSelect v (now c w + sint (10 * second)),
          s\<lparr>world := w\<rparr>))"
| "acme_step c ctx ns n (AcmeSelect v timeoutCh) s =
     (case selectWatch c v timeoutCh ctx (world s) of (event, w) \<Rightarrow>
        Some (case acme_decides event of None \<Rightarrow> AcmeSelect v timeoutCh | Some r \<Rightarrow> AcmeStop v r,
              s\<lparr>world := w\<rparr>))"
| "acme_step c ctx ns n (AcmeStop v r) s = Some (AcmeDone r, s\<lparr>world := stopWatch c v (world s)\<rparr>)"
| "acme_step c ctx ns n (AcmeDone r) s = None"

section \<open>One renewal\<close>

datatype round_pc =
    Removing edit_pc
  | Waiting Ingress wait_pc
  | Observing Ingress duration
  | Adding duration bool edit_pc
  | Counting duration bool Ingress
  | RoundDone "(bool \<times> go_error option \<times> Ingress) outcome"

fun round_result :: "round_pc \<Rightarrow> (bool \<times> go_error option \<times> Ingress) outcome option" where
  "round_result (RoundDone r) = Some r"
| "round_result (Removing q) = None"
| "round_result (Waiting ing q) = None"
| "round_result (Observing ing d) = None"
| "round_result (Adding d b q) = None"
| "round_result (Counting d b ing) = None"

definition removed :: "go_error option \<times> Ingress \<Rightarrow> round_pc" where
  "removed r = (case r of (err, ing1) \<Rightarrow> (case err of
      Some e \<Rightarrow> RoundDone (Ret (False, Some e, ing1))
    | None \<Rightarrow> Waiting ing1 WaitStart))"

definition waited :: "Ingress \<Rightarrow> duration \<times> go_error option \<Rightarrow> round_pc" where
  "waited ing r = (case r of (successTime, err) \<Rightarrow> (case err of
      Some e \<Rightarrow> RoundDone (Ret (False, Some e, ing))
    | None \<Rightarrow> Observing ing successTime))"

definition added :: "duration \<Rightarrow> bool \<Rightarrow> go_error option \<times> Ingress \<Rightarrow> round_pc" where
  "added successTime isRenew r = (case r of (err, ing2) \<Rightarrow> (case err of
      Some e \<Rightarrow> RoundDone (Ret (isRenew, Some e, ing2))
    | None \<Rightarrow> Counting successTime isRenew ing2))"

fun round_step :: "'w client \<Rightarrow> ctx \<Rightarrow> NimbleOpti \<Rightarrow> (round_pc, 'w operator) machine" where
  "round_step c ctx adapter (Removing q) s =
     in_frame (remove_step c ctx) edit_result Removing (\<lambda>p. RoundDone (Panic p)) removed q s"
| "round_step c ctx adapter (Waiting ing q) s =
     in_frame (wait_step c ctx (AnnotationRemovalDelay (Spec adapter) * second) (Namespace ing) (Name ing))
       wait_result (Waiting ing) (\<lambda>p. RoundDone (Panic p)) (waited ing) q s"
| "round_step c ctx adapter (Observing ing successTime) s =
     (let timeout = AnnotationRemovalDelay (Spec adapter) * second;
          (d, isRenew) = (if successTime = timeout * 2 then (timeout, False) else (successTime, True))
      in Some (Adding successTime isRenew (EditTry ing),
               s\<lparr>AnnotationUpdatesDuration := seconds d # AnnotationUpdatesDuration s\<rparr>))"
| "round_step c ctx adapter (Adding successTime isRenew q) s =
     in_frame (add_step c ctx) edit_result (Adding successTime isRenew) (\<lambda>p. RoundDone (Panic p))
       (added successTime isRenew) q s"
| "round_step c ctx adapter (Counting successTime isRenew ing) s =
     Some (RoundDone (Ret (isRenew, None, ing)),
       if sint successTime \<le> sint (AnnotationRemovalDelay (Spec adapter) * second)
       then s\<lparr>CertificateRenewalsTotal := CertificateRenewalsTotal s + 1\<rparr> else s)"
| "round_step c ctx adapter (RoundDone r) s = None"

section \<open>Processing an Ingress\<close>

datatype settings_pc =
    SettingsGet string
  | SettingsCreate string
  | SettingsDone "(go_error + NimbleOpti) outcome"

fun settings_result :: "settings_pc \<Rightarrow> (go_error + NimbleOpti) outcome option" where
  "settings_result (SettingsDone r) = Some r"
| "settings_result (SettingsGet ns) = None"
| "settings_result (SettingsCreate ns) = None"

fun settings_step :: "'w client \<Rightarrow> ctx \<Rightarrow> (settings_pc, 'w operator) machine" where
  "settings_step c ctx (SettingsGet ns) s =
     (case getNimbleOpti c ctx ns ns (world s) of (got, w) \<Rightarrow>
        Some (case got of
            Inr no \<Rightarrow> SettingsDone (Ret (Inr no))
          | Inl err \<Rightarrow> if isNotFound err then SettingsCreate ns else SettingsDone (Ret (Inl (ApiErr err))),
          s\<lparr>world := w\<rparr>))"
| "settings_step c ctx (SettingsCreate ns) s =
     (case createNimbleOpti c ctx
         \<lparr>no_Namespace = ns, no_Name = ns,
          Spec = \<lparr>TargetNamespace = ns, CertificateRenewalThreshold = 30, AnnotationRemovalDelay = 10\<rparr>,
          Status = emptyStatus\<rparr> (world s) of (created, w) \<Rightarrow>
        Some (case created of
            Inl err \<Rightarrow> SettingsDone (Ret (Inl (ApiErr err)))
          | Inr no \<Rightarrow> SettingsDone (Ret (Inr no)),
          s\<lparr>world := w\<rparr>))"
| "settings_step c ctx (SettingsDone r) s = None"

datatype process_pc =
    ProcessSettings Ingress settings_pc
  | ProcessRound NimbleOpti round_pc
  | ProcessDone "(bool \<times> go_error option \<times> Ingress) outcome"

fun process_result :: "process_pc \<Rightarrow> (bool \<times> go_error option \<times> Ingress) outcome option" where
  "process_result (ProcessDone r) = Some r"
| "process_result (ProcessSettings ing q) = None"
| "process_result (ProcessRound no q) = None"

definition settled :: "Ingress \<Rightarrow> go_error + NimbleOpti \<Rightarrow> process_pc" where
  "settled ing got = (case got of
      Inl e \<Rightarrow> ProcessDone (Ret (False, Some e, ing))
    | Inr adapter \<Rightarrow>
        (case isContainsAcmeChallenge ing of
           Panic p \<Rightarrow> ProcessDone (Panic p)
         | Ret found \<Rightarrow>
             if found then ProcessRound adapter (Removing (EditTry ing))
             else ProcessDone (Ret (False, None, ing))))"

definition renewed_once :: "bool \<times> go_error option \<times> Ingress \<Rightarrow> process_pc" where
  "renewed_once r = (case r of (isRenew, err, ing1) \<Rightarrow> (case err of
      Some e \<Rightarrow> ProcessDone (Ret (False, Some e, ing1))
    | None \<Rightarrow> ProcessDone (Ret (isRenew, None, ing1))))"

fun process_step :: "'w client \<Rightarrow> ctx \<Rightarrow> (process_pc, 'w operator) machine" where
  "process_step c ctx (ProcessSettings ing q) s =
     in_frame (settings_step c ctx) settings_result (ProcessSettings ing) (\<lambda>p. ProcessDone (Panic p))
       (settled ing) q s"
| "process_step c ctx (ProcessRound adapter q) s =
     in_frame (round_step c ctx adapter) round_result (ProcessRound adapter) (\<lambda>p. ProcessDone (Panic p))
       renewed_once q s"
| "process_step c ctx (ProcessDone r) s = None"

definition process_start :: "Ingress \<Rightarrow> process_pc" where
  "process_start ing = ProcessSettings ing (SettingsGet (Namespace ing))"

section \<open>Certificates about to expire\<close>

datatype expiry_pc =
    ExpiryNext "IngressTLS list" Ingress
  | ExpiryClock time IngressTLS "IngressTLS list" Ingress
  | ExpiryAdapter duration IngressTLS "IngressTLS list" Ingress
  | ExpiryDelete NimbleOpti IngressTLS "IngressTLS list" Ingress
  | ExpiryAcme NimbleOpti "IngressTLS list" Ingress acme_pc
  | ExpiryRound NimbleOpti "IngressTLS list" round_pc
  | ExpiryDone "(go_error option \<times> Ingress) outcome"

fun expiry_result :: "expiry_pc \<Rightarrow> (go_error option \<times> Ingress) outcome option" where
  "expiry_result (ExpiryDone r) = Some r"
| "expiry_result (ExpiryNext tls ing) = None"
| "expiry_result (ExpiryClock u t tls ing) = None"
| "expiry_result (ExpiryAdapter d t tls ing) = None"
| "expiry_result (ExpiryDelete no t tls ing) = None"
| "expiry_result (ExpiryAcme no tls ing q) = None"
| "expiry_result (ExpiryRound no tls q) = None"

definition acme_seen :: "NimbleOpti \<Rightarrow> IngressTLS list \<Rightarrow> Ingress \<Rightarrow> go_error option \<Rightarrow> expiry_pc" where
  "acme_seen adapter rest ing waited_for = (case waited_for of
      Some e \<Rightarrow> ExpiryDone (Ret (Some e, ing))
    | None \<Rightarrow> ExpiryRound adapter rest (Removing (EditTry ing)))"

definition expiry_renewed :: "IngressTLS list \<Rightarrow> bool \<times> go_error option \<times> Ingress \<Rightarrow> expiry_pc" where
  "expiry_renewed rest r = (case r of (_, err, ing1) \<Rightarrow> ExpiryNext rest ing1)"

fun expiry_step :: "'w client \<Rightarrow> ctx \<Rightarrow> (expiry_pc, 'w operator) machine" where
  "expiry_step c ctx (ExpiryNext [] ing) s = Some (ExpiryDone (Ret (None, ing)), s)"
| "expiry_step c ctx (ExpiryNext (tlsSpec # rest) ing) s =
     (case getSecretData c ctx (Namespace ing) (SecretName tlsSpec) (world s) of (secret, w) \<Rightarrow>
        Some (case secret of
            Inl err \<Rightarrow> ExpiryDone (Ret (Some (ApiErr err), ing))
          | Inr data \<Rightarrow>
              (case certificateNotAfter c data of
                 Inl e \<Rightarrow> ExpiryDone (Ret (Some e, ing))
               | Inr notAfter \<Rightarrow> ExpiryClock notAfter tlsSpec rest ing),
          s\<lparr>world := w\<rparr>))"
| "expiry_step c ctx (ExpiryClock notAfter tlsSpec rest ing) s =
     Some (ExpiryAdapter (time_sub notAfter (now c (world s))) tlsSpec rest ing, s)"
| "expiry_step c ctx (ExpiryAdapter timeRemaining tlsSpec rest ing) s =
     (case getNimbleOpti c ctx (Namespace ing) (Namespace ing) (world s) of (got, w) \<Rightarrow>
        Some (case got of
            Inl err \<Rightarrow> ExpiryDone (Ret (Some (ApiErr err), ing))
          | Inr adapter \<Rightarrow>
              if within_threshold timeRemaining (CertificateRenewalThreshold (Spec adapter))
              then ExpiryDelete adapter tlsSpec rest ing else ExpiryNext rest ing,
          s\<lparr>world := w\<rparr>))"
| "expiry_step c ctx (ExpiryDelete adapter tlsSpec rest ing) s =
     (case deleteSecret c ctx (Namespace ing) (SecretName tlsSpec) (world s) of (deleted, w) \<Rightarrow>
        Some (case deleted of
            Some err \<Rightarrow> ExpiryDone (Ret (Some (ApiErr err), ing))
          | None \<Rightarrow> ExpiryAcme adapter rest ing AcmeOpen,
          s\<lparr>world := w\<rparr>))"
| "expiry_step c ctx (ExpiryAcme adapter rest ing q) s =
     in_frame (acme_step c ctx (Namespace ing) (Name ing)) acme_result (ExpiryAcme adapter rest ing)
       (\<lambda>p. ExpiryDone (Panic p)) (acme_seen adapter rest ing) q s"
| "expiry_step c ctx (ExpiryRound adapter rest q) s =
     in_frame (round_step c ctx adapter) round_result (ExpiryRound adapter rest)
       (\<lambda>p. ExpiryDone (Panic p)) (expiry_renewed rest) q s"
| "expiry_step c ctx (ExpiryDone r) s = None"

section \<open>The audit and the handler\<close>

datatype audit_pc =
    AuditList
  | AuditNext "Ingress list"
  | AuditProcess "Ingress list" process_pc
  | AuditExpiry "Ingress list" expiry_pc
  | AuditDone "go_error option outcome"

fun audit_result :: "audit_pc \<Rightarrow> go_error option outcome option" where
  "audit_result (AuditDone r) = Some r"
| "audit_result AuditList = None"
| "audit_result (AuditNext items) = None"
| "audit_result (AuditProcess items q) = None"
| "audit_result (AuditExpiry items q) = None"

definition item_processed :: "Ingress list \<Rightarrow> bool \<times> go_error option \<times> Ingress \<Rightarrow> audit_pc" where
  "item_processed rest r = (case r of (isRenew, err, ing1) \<Rightarrow> (case err of
      Some e \<Rightarrow> AuditDone (Ret (Some e))
    | None \<Rightarrow> if \<not> isRenew then AuditExpiry rest (ExpiryNext (TLS ing1) ing1) else AuditNext rest))"

definition item_checked :: "Ingress list \<Rightarrow> go_error option \<times> Ingress \<Rightarrow> audit_pc" where
  "item_checked rest r = (case r of (err, ing2) \<Rightarrow> (case err of
      Some e \<Rightarrow> AuditDone (Ret (Some e))
    | None \<Rightarrow> AuditNext rest))"

fun audit_step :: "'w client \<Rightarrow> ctx \<Rightarrow> (audit_pc, 'w operator) machine" where
  "audit_step c ctx AuditList s =
     (case listIngresses c ctx (world s) of (got, w) \<Rightarrow>
        Some (case got of Inl err \<Rightarrow> AuditDone (Ret (Some (ApiErr err))) | Inr items \<Rightarrow> AuditNext items,
              s\<lparr>world := w\<rparr>))"
| "audit_step c ctx (AuditNext []) s = Some (AuditDone (Ret None), s)"
| "audit_step c ctx (AuditNext (ing # rest)) s =
     Some (if isAdapterEnabledLabel ing \<and> isBackendHttpsAnnotations ing
           then AuditProcess rest (process_start ing) else AuditNext rest, s)"
| "audit_step c ctx (AuditProcess rest q) s =
     in_frame (process_step c ctx) process_result (AuditProcess rest) (\<lambda>p. AuditDone (Panic p))
       (item_processed rest) q s"
| "audit_step c ctx (AuditExpiry rest q) s =
     in_frame (expiry_step c ctx) expiry_result (AuditExpiry rest) (\<lambda>p. AuditDone (Panic p))
       (item_checked rest) q s"
| "audit_step c ctx (AuditDone r) s = None"

datatype handler_pc =
    HandlerEvent obj
  | HandlerProcess process_pc
  | HandlerDone "unit outcome"

fun handler_step :: "'w client \<Rightarrow> (handler_pc, 'w operator) machine" where
  "handler_step c (HandlerEvent ob) s =
     Some (case metaNamespaceKey c ob of
         Inl err \<Rightarrow> HandlerDone (Ret ())
       | Inr key \<Rightarrow>
           if IsLocked key (auditMutex s) then HandlerDone (Ret ())
           else (case ob of
               ObjOther \<Rightarrow> HandlerDone (Panic NilDereference)
             | ObjIngress ing \<Rightarrow>
                 if isAdapterEnabledLabel ing \<and> isBackendHttpsAnnotations ing
                 then HandlerProcess (process_start ing) else HandlerDone (Ret ())), s)"
| "handler_step c (HandlerProcess q) s =
     in_frame (process_step c background) process_result HandlerProcess (\<lambda>p. HandlerDone (Panic p))
       (\<lambda>_. HandlerDone (Ret ())) q s"
| "handler_step c (HandlerDone r) s = None"

end
