(* ===== verification/Goroutines.thy ===== *)
theory Goroutines
  imports OperatorSteps
begin

text \<open>
  The two goroutines of the operator that renew: the informer's, which runs the handler of one added
  object after another, and the one \<open>StartAudit\<close> starts. Every step of either is a step of the
  renewal round it is in, or a quiet one: it reads, sleeps, watches or deletes a secret, and changes
  neither an Ingress nor the named mutex nor the metrics. The locale \<open>round_host\<close> states this for
  a machine; it passes from callee to caller.
\<close>

section \<open>Quiet calls\<close>

inductive quiet :: "'w client \<Rightarrow> 'w \<Rightarrow> 'w \<Rightarrow> bool" for c where
  quiet_refl: "quiet c w w"
| quiet_list: "quiet c w (snd (listIngresses c ctx w))"
| quiet_secret: "quiet c w (snd (getSecretData c ctx ns n w))"
| quiet_delete: "quiet c w (snd (deleteSecret c ctx ns n w))"
| quiet_settings: "quiet c w (snd (getNimbleOpti c ctx ns n w))"
| quiet_create: "quiet c w (snd (createNimbleOpti c ctx no w))"
| quiet_watch: "quiet c w (snd (watchIngresses c ctx ns n w))"
| quiet_select: "quiet c w (snd (selectWatch c v t ctx w))"
| quiet_stop: "quiet c w (stopWatch c v w)"

lemma quiet_calls:
  "listIngresses c ctx w = (a1, w') \<Longrightarrow> quiet c w w'"
  "getSecretData c ctx ns n w = (a2, w') \<Longrightarrow> quiet c w w'"
  "deleteSecret c ctx ns n w = (a3, w') \<Longrightarrow> quiet c w w'"
  "getNimbleOpti c ctx ns n w = (a4, w') \<Longrightarrow> quiet c w w'"
  "createNimbleOpti c ctx no w = (a4, w') \<Longrightarrow> quiet c w w'"
  "watchIngresses c ctx ns n w = (a5, w') \<Longrightarrow> quiet c w w'"
  "selectWatch c v t ctx w = (a6, w') \<Longrightarrow> quiet c w w'"
  using quiet_list [of c w ctx] quiet_secret [of c w ctx ns n] quiet_delete [of c w ctx ns n]
    quiet_settings [of c w ctx ns n] quiet_create [of c w ctx no] quiet_watch [of c w ctx ns n]
    quiet_select [of c w v t ctx] by simp_all

definition quiet_step :: "'w client \<Rightarrow> 'w operator \<Rightarrow> 'w operator \<Rightarrow> bool" where
  "quiet_step c s s' \<longleftrightarrow> (\<exists>w. quiet c (world s) w \<and> s' = s\<lparr>world := w\<rparr>)"

lemma quiet_step_refl [simp, intro]: "quiet_step c s s"
  unfolding quiet_step_def by (rule exI [of _ "world s"]) (simp add: quiet_refl)

lemma quiet_stepI [intro]: "quiet c (world s) w \<Longrightarrow> quiet_step c s (s\<lparr>world := w\<rparr>)"
  by (auto simp: quiet_step_def)

section \<open>Machines that host renewal rounds\<close>

type_synonym round_at = "(NimbleOpti \<times> round_pc) option"

definition resting :: "round_at \<Rightarrow> bool" where
  "resting r \<longleftrightarrow> (case r of None \<Rightarrow> True | Some (no, q) \<Rightarrow> round_result q \<noteq> None)"

definition fresh :: "round_at \<Rightarrow> bool" where
  "fresh r \<longleftrightarrow> (case r of None \<Rightarrow> True | Some (no, q) \<Rightarrow> (\<exists>ing. q = Removing (EditTry ing)))"

lemma round_at_simps [simp]:
  "resting None" "fresh None" "resting (Some (no, RoundDone r))" "fresh (Some (no, Removing (EditTry ing)))"
  by (simp_all add: resting_def fresh_def)

definition hosted_step ::
  "'w client \<Rightarrow> round_at \<Rightarrow> 'w operator \<Rightarrow> round_at \<Rightarrow> 'w operator \<Rightarrow> bool" where
  "hosted_step c r s r' s' \<longleftrightarrow>
     (\<exists>no q q'. r = Some (no, q) \<and> round_step c background no q s = Some (q', s') \<and> r' = Some (no, q')) \<or>
     resting r \<and> fresh r' \<and> quiet_step c s s'"

lemma hosted_quiet: "resting r \<Longrightarrow> fresh r' \<Longrightarrow> quiet_step c s s' \<Longrightarrow> hosted_step c r s r' s'"
  by (simp add: hosted_step_def)

lemma in_frame_enabled:
  "m q s = Some (q', s') \<Longrightarrow> \<exists>p' t. in_frame m result wrap panicked return q s = Some (p', t)"
  by (auto simp: in_frame_def split: option.split outcome.split)

locale round_host =
  fixes c :: "'w client"
    and m :: "('p, 'w operator) machine"
    and result :: "'p \<Rightarrow> 'r outcome option"
    and round_of :: "'p \<Rightarrow> round_at"
  assumes hosts: "m p s = Some (p', s') \<Longrightarrow> hosted_step c (round_of p) s (round_of p') s'"
    and result_rests: "result p = Some r \<Longrightarrow> resting (round_of p)"
    and enables: "round_of p = Some (no, q) \<Longrightarrow> round_step c background no q s = Some (q', s') \<Longrightarrow>
      \<exists>p' t. m p s = Some (p', t)"
begin

text \<open>A caller hosts what its callee hosts, if it starts rounds from their beginning.\<close>

lemma frame_hosts:
  assumes "in_frame m result wrap panicked return q s = Some (p', s')"
    and "\<And>q. R (wrap q) = round_of q"
    and "\<And>a. fresh (R (return a))" and "\<And>x. fresh (R (panicked x))"
  shows "hosted_step c (R (wrap q)) s (R p') s'"
  using assms(1)
proof (cases rule: in_frame_cases)
  case (inner q')
  then show ?thesis using hosts assms(2) by simp
next
  case (returned a)
  then show ?thesis using result_rests assms(2,3) by (auto intro!: hosted_quiet)
next
  case (panicked x)
  then show ?thesis using result_rests assms(2,4) by (auto intro!: hosted_quiet)
qed

lemma frame_enables:
  "round_of p = Some (no, q) \<Longrightarrow> round_step c background no q s = Some (q', s') \<Longrightarrow>
   \<exists>p' t. in_frame m result wrap panicked return p s = Some (p', t)"
  by (blast dest: enables intro: in_frame_enabled)

end

interpretation round_itself: round_host c "round_step c background no" round_result "\<lambda>q. Some (no, q)"
proof
  fix q s q' s' and r
  show "round_step c background no q s = Some (q', s') \<Longrightarrow> hosted_step c (Some (no, q)) s (Some (no, q')) s'"
    by (auto simp: hosted_step_def)
  show "round_result q = Some r \<Longrightarrow> resting (Some (no, q))"
    by (simp add: resting_def)
qed simp

interpretation settings_host: round_host c "settings_step c background" settings_result "\<lambda>_. None"
proof
  fix q s q' s'
  assume "settings_step c background q s = Some (q', s')"
  then show "hosted_step c None s None s'"
    by (cases q) (auto intro!: hosted_quiet intro: quiet_calls split: prod.splits)
qed simp_all

interpretation acme_host: round_host c "acme_step c background ns n" acme_result "\<lambda>_. None"
proof
  fix q q' and s s' :: "'a operator"
  assume "acme_step c background ns n q s = Some (q', s')"
  then show "hosted_step c None s None s'"
    by (cases q) (auto intro!: hosted_quiet intro: quiet_calls quiet_stop split: prod.splits)
qed simp_all

fun process_round :: "process_pc \<Rightarrow> round_at" where
  "process_round (ProcessRound no q) = Some (no, q)"
| "process_round (ProcessSettings ing q) = None"
| "process_round (ProcessDone r) = None"

interpretation process_host: round_host c "process_step c background" process_result process_round
proof
  fix p s p' s'
  assume step: "process_step c background p s = Some (p', s')"
  show "hosted_step c (process_round p) s (process_round p') s'"
  proof (cases p)
    case (ProcessSettings ing q)
    have "fresh (process_round (settled ing a))" for a
      by (simp add: settled_def split: sum.split outcome.split)
    then show ?thesis
      using step ProcessSettings settings_host.frame_hosts [of c "ProcessSettings ing" _ "settled ing" q s p' s' process_round]
      by simp
  next
    case (ProcessRound no q)
    have "fresh (process_round (renewed_once a))" for a
      by (simp add: renewed_once_def split: prod.split option.split)
    then show ?thesis
      using step ProcessRound round_itself.frame_hosts [of c no "ProcessRound no" _ renewed_once q s p' s' process_round]
      by simp
  qed (use step in simp)
next
  fix p no q q' and s s' :: "'a operator"
  assume "process_round p = Some (no, q)" "round_step c background no q s = Some (q', s')"
  then show "\<exists>p' t. process_step c background p s = Some (p', t)"
    by (cases p) (auto intro: round_itself.frame_enables)
qed (auto elim: process_result.elims)

fun expiry_round :: "expiry_pc \<Rightarrow> round_at" where
  "expiry_round (ExpiryRound no tls q) = Some (no, q)"
| "expiry_round (ExpiryNext tls ing) = None"
| "expiry_round (ExpiryClock u t tls ing) = None"
| "expiry_round (ExpiryAdapter d t tls ing) = None"
| "expiry_round (ExpiryDelete no t tls ing) = None"
| "expiry_round (ExpiryAcme no tls ing q) = None"
| "expiry_round (ExpiryDone r) = None"

interpretation expiry_host: round_host c "expiry_step c background" expiry_result expiry_round
proof
  fix p s p' s'
  assume step: "expiry_step c background p s = Some (p', s')"
  show "hosted_step c (expiry_round p) s (expiry_round p') s'"
  proof (cases p)
    case (ExpiryAcme no tls ing q)
    have "fresh (expiry_round (acme_seen no tls ing a))" for a
      by (simp add: acme_seen_def split: option.split)
    then show ?thesis
      using step ExpiryAcme
        acme_host.frame_hosts [of c "Namespace ing" "Name ing" "ExpiryAcme no tls ing" _ "acme_seen no tls ing" q s p' s' expiry_round]
      by simp
  next
    case (ExpiryRound no tls q)
    have "fresh (expiry_round (expiry_renewed tls a))" for a
      by (simp add: expiry_renewed_def split: prod.split)
    then show ?thesis
      using step ExpiryRound
        round_itself.frame_hosts [of c no "ExpiryRound no tls" _ "expiry_renewed tls" q s p' s' expiry_round]
      by simp
  next
    case (ExpiryNext tls ing)
    then show ?thesis using step
      by (cases tls) (auto intro!: hosted_quiet intro: quiet_calls split: prod.splits sum.splits)
  qed (use step in \<open>auto intro!: hosted_quiet intro: quiet_calls split: prod.splits sum.splits option.splits\<close>)
next
  fix p no q q' and s s' :: "'a operator"
  assume "expiry_round p = Some (no, q)" "round_step c background no q s = Some (q', s')"
  then show "\<exists>p' t. expiry_step c background p s = Some (p', t)"
    by (cases p) (auto intro: round_itself.frame_enables)
qed (auto elim: expiry_result.elims)

fun audit_round :: "audit_pc \<Rightarrow> round_at" where
  "audit_round (AuditProcess items q) = process_round q"
| "audit_round (AuditExpiry items q) = expiry_round q"
| "audit_round AuditList = None"
| "audit_round (AuditNext items) = None"
| "audit_round (AuditDone r) = None"

interpretation audit_host: round_host c "audit_step c background" audit_result audit_round
proof
  fix p s p' s'
  assume step: "audit_step c background p s = Some (p', s')"
  show "hosted_step c (audit_round p) s (audit_round p') s'"
  proof (cases p)
    case (AuditProcess items q)
    have "fresh (audit_round (item_processed items a))" for a
      by (simp add: item_processed_def split: prod.split option.split)
    then show ?thesis
      using step AuditProcess
        process_host.frame_hosts [of c "AuditProcess items" _ "item_processed items" q s p' s' audit_round]
      by simp
  next
    case (AuditExpiry items q)
    have "fresh (audit_round (item_checked items a))" for a
      by (simp add: item_checked_def split: prod.split option.split)
    then show ?thesis
      using step AuditExpiry
        expiry_host.frame_hosts [of c "AuditExpiry items" _ "item_checked items" q s p' s' audit_round]
      by simp
  next
    case (AuditNext items)
    then show ?thesis using step
      by (cases items) (auto intro!: hosted_quiet simp: process_start_def)
  qed (use step in \<open>auto intro!: hosted_quiet intro: quiet_calls split: prod.splits sum.splits\<close>)
next
  fix p no q q' and s s' :: "'a operator"
  assume "audit_round p = Some (no, q)" "round_step c background no q s = Some (q', s')"
  then show "\<exists>p' t. audit_step c background p s = Some (p', t)"
    by (cases p) (auto intro: process_host.frame_enables expiry_host.frame_enables)
qed (auto elim: audit_result.elims)

fun handler_result :: "handler_pc \<Rightarrow> unit outcome option" where
  "handler_result (HandlerDone r) = Some r"
| "handler_result (HandlerEvent ob) = None"
| "handler_result (HandlerProcess q) = None"

fun handler_round :: "handler_pc \<Rightarrow> round_at" where
  "handler_round (HandlerProcess q) = process_round q"
| "handler_round (HandlerEvent ob) = None"
| "handler_round (HandlerDone r) = None"

interpretation handler_host: round_host c "handler_step c" handler_result handler_round
proof
  fix p s p' s'
  assume step: "handler_step c p s = Some (p', s')"
  show "hosted_step c (handler_round p) s (handler_round p') s'"
  proof (cases p)
    case (HandlerProcess q)
    then show ?thesis
      using step
        process_host.frame_hosts [of c HandlerProcess _ "\<lambda>_. HandlerDone (Ret ())" q s p' s' handler_round]
      by simp
  next
    case (HandlerEvent ob)
    then show ?thesis using step
      by (auto intro!: hosted_quiet simp: process_start_def split: sum.splits obj.splits)
  qed (use step in simp)
next
  fix p no q q' and s s' :: "'a operator"
  assume "handler_round p = Some (no, q)" "round_step c background no q s = Some (q', s')"
  then show "\<exists>p' t. handler_step c p s = Some (p', t)"
    by (cases p) (auto intro: process_host.frame_enables)
qed (auto elim: handler_result.elims)

section \<open>The goroutines\<close>

datatype goroutine = Informer | Auditor

text \<open>There are just these two, so what is said of all goroutines can be computed and summed over.\<close>

instantiation goroutine :: enum
begin

definition enum_goroutine :: "goroutine list" where
  "enum_goroutine = [Informer, Auditor]"

definition enum_all_goroutine :: "(goroutine \<Rightarrow> bool) \<Rightarrow> bool" where
  "enum_all_goroutine P \<longleftrightarrow> P Informer \<and> P Auditor"

definition enum_ex_goroutine :: "(goroutine \<Rightarrow> bool) \<Rightarrow> bool" where
  "enum_ex_goroutine P \<longleftrightarrow> P Informer \<or> P Auditor"

instance
proof
  have "i \<in> set enum_class.enum" for i :: goroutine by (cases i) (simp_all add: enum_goroutine_def)
  then show all: "(UNIV :: goroutine set) = set enum_class.enum" by blast
  show "enum_class.enum_all P \<longleftrightarrow> Ball UNIV P" "enum_class.enum_ex P \<longleftrightarrow> Bex UNIV P" for P :: "goroutine \<Rightarrow> bool"
    unfolding all by (simp_all add: enum_all_goroutine_def enum_ex_goroutine_def enum_goroutine_def)
qed (simp add: enum_goroutine_def)

end

lemma goroutine_UNIV: "(UNIV :: goroutine set) = {Informer, Auditor}"
  using goroutine.exhaust by blast

datatype go_point = InHandler handler_pc | InAudit audit_pc

fun go_step :: "'w client \<Rightarrow> (go_point, 'w operator) machine" where
  "go_step c (InHandler q) s = (case handler_step c q s of None \<Rightarrow> None | Some (q', s') \<Rightarrow> Some (InHandler q', s'))"
| "go_step c (InAudit q) s = (case audit_step c background q s of None \<Rightarrow> None | Some (q', s') \<Rightarrow> Some (InAudit q', s'))"

fun go_result :: "go_point \<Rightarrow> unit outcome option" where
  "go_result (InHandler q) = handler_result q"
| "go_result (InAudit q) = (case audit_result q of None \<Rightarrow> None
     | Some (Ret e) \<Rightarrow> Some (Ret ()) | Some (Panic p) \<Rightarrow> Some (Panic p))"

fun go_round :: "go_point \<Rightarrow> round_at" where
  "go_round (InHandler q) = handler_round q"
| "go_round (InAudit q) = audit_round q"

interpretation go_host: round_host c "go_step c" go_result go_round
proof
  fix p s p' s' and r :: "unit outcome"
  show "go_step c p s = Some (p', s') \<Longrightarrow> hosted_step c (go_round p) s (go_round p') s'"
    by (cases p) (auto dest: handler_host.hosts audit_host.hosts split: option.splits)
  show "go_result p = Some r \<Longrightarrow> resting (go_round p)"
    by (cases p) (auto dest: handler_host.result_rests audit_host.result_rests split: option.splits)
next
  fix p no q q' and s s' :: "'a operator"
  assume "go_round p = Some (no, q)" "round_step c background no q s = Some (q', s')"
  then show "\<exists>p' t. go_step c p s = Some (p', t)"
    by (cases p) (fastforce dest: handler_host.enables audit_host.enables)+
qed

end
