(* ===== verification/RoundSteps.thy ===== *)
theory RoundSteps
  imports Goroutines
begin

text \<open>
  What one step of a renewal round does: to the named mutex, to the metrics, to the stored Ingress
  objects, and to the number of steps the round can still take.
\<close>

section \<open>The lock of an edit\<close>

text \<open>The edit a round is in, if any: whether it adds, and where it is.\<close>

fun round_site :: "round_pc \<Rightarrow> (bool \<times> edit_pc) option" where
  "round_site (Removing q) = Some (False, q)"
| "round_site (Adding d b q) = Some (True, q)"
| "round_site (Waiting ing q) = None"
| "round_site (Observing ing d) = None"
| "round_site (Counting d b ing) = None"
| "round_site (RoundDone r) = None"

fun edit_holds :: "edit_pc \<Rightarrow> string option" where
  "edit_holds (EditTry ing) = None"
| "edit_holds (EditGet key ing) = Some key"
| "edit_holds (EditUpdate key ing) = Some key"
| "edit_holds (EditUnlock key err ing) = Some key"
| "edit_holds (EditDone r) = None"

definition round_holds :: "round_pc \<Rightarrow> string option" where
  "round_holds q = (case round_site q of None \<Rightarrow> None | Some (b, e) \<Rightarrow> edit_holds e)"

lemma round_holds_simps [simp]:
  "round_holds (Removing e) = edit_holds e" "round_holds (Adding d b e) = edit_holds e"
  "round_holds (Waiting ing w) = None" "round_holds (Observing ing d) = None"
  "round_holds (Counting d b ing) = None" "round_holds (RoundDone r) = None"
  by (simp_all add: round_holds_def)

text \<open>
  A step keeps what is held, takes a free name, or gives its name back; a failed fetch gives up the
  claim but not the name.
\<close>

definition lock_move :: "string option \<Rightarrow> string set \<Rightarrow> string option \<Rightarrow> string set \<Rightarrow> bool" where
  "lock_move k H k' H' \<longleftrightarrow>
     k' = k \<and> H' = H \<or>
     (\<exists>a. k = None \<and> a \<notin> H \<and> k' = Some a \<and> H' = insert a H) \<or>
     (\<exists>a. k = Some a \<and> k' = None \<and> (H' = H - {a} \<or> H' = H))"

lemma lock_move_intros [simp, intro]:
  "lock_move k H k H" "lock_move (Some a) H None H" "lock_move (Some a) H None (H - {a})"
  "a \<notin> H \<Longrightarrow> lock_move None H (Some a) (insert a H)"
  by (simp_all add: lock_move_def)

text \<open>A name that is held, but not by the goroutine that moves, stays so.\<close>

lemma lock_move_other:
  assumes "lock_move k H k' H'" and "a \<in> H" and "k \<noteq> Some a"
  shows "a \<in> H' \<and> k' \<noteq> Some a"
  using assms(1) unfolding lock_move_def
proof (elim disjE exE conjE)
  fix b
  assume "k = Some b" "k' = None" "H' = H - {b}"
  with assms(2,3) show ?thesis by simp
qed (use assms(2,3) in auto)

definition holds_locked :: "string option \<Rightarrow> ('w, 'x) base_scheme \<Rightarrow> bool" where
  "holds_locked k s \<longleftrightarrow> mutex_ok s \<and> (\<forall>a. k = Some a \<longrightarrow> a \<in> held_names s)"

lemma holds_locked_world [simp]: "holds_locked k (s\<lparr>world := w\<rparr>) = holds_locked k s"
  by (simp add: holds_locked_def)

lemma edit_locks:
  assumes "edit_step refusal change c ctx q s = Some (q', s')" and "holds_locked (edit_holds q) s"
  shows "holds_locked (edit_holds q') s' \<and> lock_move (edit_holds q) (held_names s) (edit_holds q') (held_names s')"
proof (cases q)
  case (EditTry ing)
  have ok: "nm_inv (auditMutex s)" using assms(2) by (simp add: holds_locked_def mutex_ok_def)
  show ?thesis
  proof (cases "IngressKey ing \<in> nm_held (auditMutex s)")
    case True
    with EditTry assms nm.acquire_taken [OF ok] show ?thesis
      by (auto simp: holds_locked_def)
  next
    case False
    then obtain m where "TryLock (IngressKey ing) (auditMutex s) = (True, m)" "nm_inv m"
      "nm_held m = insert (IngressKey ing) (nm_held (auditMutex s))"
      using nm.acquire_free [OF ok] by metis
    with EditTry assms False show ?thesis
      by (auto simp: holds_locked_def mutex_ok_def held_names_def)
  qed
next
  case (EditUnlock key err ing)
  have "nm_inv (auditMutex s)" using assms(2) by (simp add: holds_locked_def mutex_ok_def)
  then obtain m where m: "Unlock key (auditMutex s) = Some m" "nm_inv m"
    "nm_held m = nm_held (auditMutex s) - {key}"
    using nm.release_works by metis
  with EditUnlock assms(1) have "q' = EditDone (Ret (err, ing))" "s' = s\<lparr>auditMutex := m\<rparr>" by auto
  with EditUnlock m(2,3) show ?thesis
    by (simp add: holds_locked_def mutex_ok_def held_names_def)
next
  case (EditGet key ing)
  then show ?thesis using assms by (auto simp: holds_locked_def split: prod.splits sum.splits)
next
  case (EditUpdate key ing)
  then show ?thesis using assms by (auto simp: holds_locked_def split: prod.splits sum.splits)
qed (use assms in simp)

lemma wait_mutex_same:
  "wait_step c ctx d ns n q s = Some (q', s') \<Longrightarrow> \<exists>w. s' = s\<lparr>world := w\<rparr>"
  by (cases q) (auto split: prod.splits intro: exI [of _ "world s"])

lemma round_locks:
  assumes "round_step c ctx no q s = Some (q', s')" and "holds_locked (round_holds q) s"
  shows "holds_locked (round_holds q') s' \<and>
     lock_move (round_holds q) (held_names s) (round_holds q') (held_names s')"
proof (cases q)
  case (Removing e)
  note step = assms(1) [unfolded Removing round_step.simps]
  from step show ?thesis
  proof (cases rule: in_frame_cases)
    case (inner e')
    then show ?thesis using edit_locks [of _ _ c ctx e s e' s'] assms(2) Removing
      by (simp add: remove_step_def)
  next
    case (returned a)
    then show ?thesis using assms(2) Removing
      by (auto simp: removed_def split: prod.split option.split elim: edit_result.elims)
  next
    case (panicked x)
    then show ?thesis using assms(2) Removing step
      by (auto simp: in_frame_def elim!: edit_result.elims)
  qed
next
  case (Adding d b e)
  note step = assms(1) [unfolded Adding round_step.simps]
  from step show ?thesis
  proof (cases rule: in_frame_cases)
    case (inner e')
    then show ?thesis using edit_locks [of _ _ c ctx e s e' s'] assms(2) Adding
      by (simp add: add_step_def)
  next
    case (returned a)
    then show ?thesis using assms(2) Adding
      by (auto simp: added_def split: prod.split option.split elim: edit_result.elims)
  next
    case (panicked x)
    then show ?thesis using assms(2) Adding step
      by (auto simp: in_frame_def elim!: edit_result.elims)
  qed
next
  case (Waiting ing w)
  note step = assms(1) [unfolded Waiting round_step.simps]
  from step show ?thesis
  proof (cases rule: in_frame_cases)
    case (inner w')
    then show ?thesis using wait_mutex_same [OF inner(2)] assms(2) Waiting
      by auto
  qed (use assms(2) Waiting in \<open>auto simp: waited_def split: prod.split option.split\<close>)
next
  case (Observing ing d)
  then show ?thesis using assms
    by (auto simp: lock_move_def holds_locked_def Let_def mutex_ok_def held_names_def split: if_splits)
next
  case (Counting d b ing)
  then show ?thesis using assms
    by (auto simp: lock_move_def holds_locked_def mutex_ok_def held_names_def split: if_splits)
qed (use assms in simp)

section \<open>No step blocks\<close>

lemma edit_moves:
  assumes "edit_result q = None" and "mutex_ok s"
  shows "\<exists>q' s'. edit_step refusal change c ctx q s = Some (q', s')"
proof (cases q)
  case (EditUnlock key err ing)
  obtain m where "Unlock key (auditMutex s) = Some m"
    using nm.release_works [of "auditMutex s" key] assms(2) by (auto simp: mutex_ok_def)
  with EditUnlock show ?thesis by simp
qed (use assms in \<open>auto split: prod.split\<close>)

lemma wait_moves: "wait_result q = None \<Longrightarrow> \<exists>q' s'. wait_step c ctx d ns n q s = Some (q', s')"
  by (cases q) (auto split: prod.split)

lemma frame_moves:
  "(result q = None \<Longrightarrow> \<exists>q' s'. m q s = Some (q', s')) \<Longrightarrow>
   \<exists>p' s'. in_frame m result wrap panicked return q s = Some (p', s')"
  by (cases "result q") (auto simp: in_frame_def split: outcome.split)

lemma round_moves:
  assumes "round_result q = None" and "mutex_ok s"
  shows "\<exists>q' s'. round_step c ctx no q s = Some (q', s')"
  using assms
  by (cases q) (auto simp: remove_step_def add_step_def Let_def
      intro!: frame_moves edit_moves wait_moves)

section \<open>Metrics\<close>

fun uncounted :: "round_pc \<Rightarrow> nat" where
  "uncounted (Adding d b q) = 1"
| "uncounted (Counting d b ing) = 1"
| "uncounted (Removing q) = 0"
| "uncounted (Waiting ing q) = 0"
| "uncounted (Observing ing d) = 0"
| "uncounted (RoundDone r) = 0"

lemma edit_metrics:
  "edit_step refusal change c ctx q s = Some (q', s') \<Longrightarrow>
     \<exists>w m. s' = s\<lparr>world := w, auditMutex := m\<rparr>"
  by (cases q) (auto split: prod.splits option.splits, (metis base_update_idem)+)

lemma round_metrics:
  assumes "round_step c ctx no q s = Some (q', s')"
    and "CertificateRenewalsTotal s + uncounted q + k \<le> length (AnnotationUpdatesDuration s)"
  shows "CertificateRenewalsTotal s' + uncounted q' + k \<le> length (AnnotationUpdatesDuration s')"
proof (cases q)
  case (Removing e)
  from assms(1) [unfolded Removing round_step.simps] show ?thesis
    by (cases rule: in_frame_cases)
       (use assms(2) Removing in \<open>auto simp: remove_step_def removed_def dest!: edit_metrics
          split: prod.split option.split\<close>)
next
  case (Adding d b e)
  from assms(1) [unfolded Adding round_step.simps] show ?thesis
    by (cases rule: in_frame_cases)
       (use assms(2) Adding in \<open>auto simp: add_step_def added_def dest!: edit_metrics
          split: prod.split option.split\<close>)
next
  case (Waiting ing w)
  from assms(1) [unfolded Waiting round_step.simps] show ?thesis
    by (cases rule: in_frame_cases)
       (use assms(2) Waiting in \<open>auto simp: waited_def dest!: wait_mutex_same
          split: prod.split option.split\<close>)
qed (use assms in \<open>auto simp: Let_def split: if_splits\<close>)

section \<open>The stored objects\<close>

text \<open>
  What an API server promises: a read returns what is stored, an update touches only the object it
  names, everything else leaves the Ingress objects alone. \<open>stored\<close> is the view of the objects in
  a world.
\<close>

type_synonym store_view = "string \<times> string \<rightharpoonup> Ingress"

definition object_name :: "Ingress \<Rightarrow> string \<times> string" where
  "object_name ing = (Namespace ing, Name ing)"

definition stores :: "'w client \<Rightarrow> ('w \<Rightarrow> store_view) \<Rightarrow> bool" where
  "stores c stored \<longleftrightarrow>
     (\<forall>ctx ns n w got w'. getIngress c ctx ns n w = (got, w') \<longrightarrow> stored w' = stored w \<and>
        (\<forall>ing. got = Inr ing \<longrightarrow> stored w (ns, n) = Some ing \<and> object_name ing = (ns, n))) \<and>
     (\<forall>ctx ing w r w' k. updateIngress c ctx ing w = (r, w') \<longrightarrow> k \<noteq> object_name ing \<longrightarrow> stored w' k = stored w k) \<and>
     (\<forall>d w. stored (sleep c d w) = stored w) \<and>
     (\<forall>w w'. quiet c w w' \<longrightarrow> stored w' = stored w)"

lemma storesD:
  assumes "stores c stored"
  shows "getIngress c ctx ns n w = (got, w') \<Longrightarrow> stored w' = stored w"
    and "getIngress c ctx ns n w = (Inr ing, w') \<Longrightarrow> stored w (ns, n) = Some ing \<and> object_name ing = (ns, n)"
    and "updateIngress c ctx ing w = (r, w') \<Longrightarrow> k \<noteq> object_name ing \<Longrightarrow> stored w' k = stored w k"
    and "stored (sleep c d w) = stored w"
    and "quiet c w w' \<Longrightarrow> stored w' = stored w"
  using assms unfolding stores_def by blast+

definition changed :: "bool \<Rightarrow> annotations \<Rightarrow> annotations" where
  "changed adding = (if adding then with_https else without_https)"

text \<open>The key an edit holds is that of the object it edits.\<close>

fun keyed :: "(bool \<times> edit_pc) option \<Rightarrow> bool" where
  "keyed (Some (b, EditGet key ing)) \<longleftrightarrow> key = IngressKey ing"
| "keyed (Some (b, EditUpdate key ing)) \<longleftrightarrow> key = IngressKey ing"
| "keyed (Some (b, EditTry ing)) \<longleftrightarrow> True"
| "keyed (Some (b, EditUnlock key err ing)) \<longleftrightarrow> True"
| "keyed (Some (b, EditDone r)) \<longleftrightarrow> True"
| "keyed None \<longleftrightarrow> True"

text \<open>The update an edit is about to send is its change applied to what is stored.\<close>

definition current :: "store_view \<Rightarrow> (bool \<times> edit_pc) option \<Rightarrow> bool" where
  "current st site \<longleftrightarrow> (\<forall>b key ing. site = Some (b, EditUpdate key ing) \<longrightarrow>
     (\<exists>old. st (object_name ing) = Some old \<and> ing = old\<lparr>Annotations := changed b (Annotations old)\<rparr>))"

definition writes :: "(bool \<times> edit_pc) option \<Rightarrow> (string \<times> string) set" where
  "writes site = {k. \<exists>b key ing. site = Some (b, EditUpdate key ing) \<and> k = object_name ing}"

lemma site_simps [simp]:
  "current st None" "writes None = {}"
  "current st (Some (b, EditTry ing))" "current st (Some (b, EditDone r))"
  "current st (Some (b, EditGet key ing))" "current st (Some (b, EditUnlock key err ing))"
  by (simp_all add: current_def writes_def)

lemma same_key: "object_name a = object_name b \<Longrightarrow> IngressKey a = IngressKey b"
  by (simp add: object_name_def IngressKey_def)

lemma edit_store:
  assumes "stores c stored" and "keyed (Some (b, q))"
    and "edit_step refusal (changed b) c ctx q s = Some (q', s')"
  shows "keyed (Some (b, q')) \<and> current (stored (world s')) (Some (b, q')) \<and>
     (\<forall>k. k \<notin> writes (Some (b, q)) \<longrightarrow> stored (world s') k = stored (world s) k)"
proof (cases q)
  case (EditTry ing)
  then show ?thesis using assms(3) by (auto split: prod.splits)
next
  case (EditGet key ing)
  obtain got w where get: "getIngress c ctx (Namespace ing) (Name ing) (world s) = (got, w)"
    by (cases "getIngress c ctx (Namespace ing) (Name ing) (world s)")
  note same = storesD(1) [OF assms(1) get]
  show ?thesis
  proof (cases got)
    case (Inl err)
    then show ?thesis using assms(3) EditGet get same by auto
  next
    case (Inr ing1)
    have old: "stored (world s) (Namespace ing, Name ing) = Some ing1" "object_name ing1 = (Namespace ing, Name ing)"
      using storesD(2) [OF assms(1) get [unfolded Inr]] by simp_all
    let ?new = "ing1\<lparr>Annotations := changed b (Annotations ing1)\<rparr>"
    have "q' = EditUpdate key ?new" "s' = s\<lparr>world := w\<rparr>" using assms(3) EditGet get Inr by auto
    moreover have "object_name ?new = (Namespace ing, Name ing)" "IngressKey ?new = IngressKey ing"
      using old(2) by (simp_all add: object_name_def IngressKey_def)
    ultimately show ?thesis using assms(2) EditGet same old(1) by (auto simp: current_def)
  qed
next
  case (EditUpdate key ing)
  then show ?thesis
    using assms storesD(3) [OF assms(1)] by (auto simp: writes_def split: prod.splits sum.splits)
next
  case (EditUnlock key err ing)
  then show ?thesis using assms(3) by (auto split: option.splits)
qed (use assms(3) in simp)

lemma remove_add_changed:
  "remove_step = edit_step (\<lambda>key. ''key '' @ key @ '' is locked, and it should be unlocked'') (changed False)"
  "add_step = edit_step (\<lambda>key. ''key '' @ key @ '' is locked, and should be unlocked'') (changed True)"
  by (intro ext, simp add: remove_step_def add_step_def changed_def with_https_def [abs_def]
      without_https_def [abs_def])+

lemma wait_store:
  "stores c stored \<Longrightarrow> wait_step c ctx d ns n q s = Some (q', s') \<Longrightarrow> stored (world s') = stored (world s)"
  by (cases q) (auto dest: storesD(1) simp: storesD(4) split: prod.splits)

lemma round_store:
  assumes "stores c stored" and "keyed (round_site q)" and "round_step c ctx no q s = Some (q', s')"
  shows "keyed (round_site q') \<and> current (stored (world s')) (round_site q') \<and>
     (\<forall>k. k \<notin> writes (round_site q) \<longrightarrow> stored (world s') k = stored (world s) k)"
proof (cases q)
  case (Removing e)
  from assms(3) [unfolded Removing round_step.simps] show ?thesis
  proof (cases rule: in_frame_cases)
    case (inner e')
    then show ?thesis
      using edit_store [OF assms(1), of False e _ ctx s e' s'] assms(2) Removing by (simp add: remove_add_changed)
  qed (auto simp: Removing removed_def split: prod.split option.split)
next
  case (Adding d b e)
  from assms(3) [unfolded Adding round_step.simps] show ?thesis
  proof (cases rule: in_frame_cases)
    case (inner e')
    then show ?thesis
      using edit_store [OF assms(1), of True e _ ctx s e' s'] assms(2) Adding by (simp add: remove_add_changed)
  qed (auto simp: Adding added_def split: prod.split option.split)
next
  case (Waiting ing w)
  from assms(3) [unfolded Waiting round_step.simps] show ?thesis
  proof (cases rule: in_frame_cases)
    case (inner w')
    then show ?thesis using wait_store [OF assms(1) inner(2)] by simp
  qed (auto simp: waited_def split: prod.split option.split)
qed (use assms(3) in \<open>auto simp: Let_def split: if_splits\<close>)

section \<open>How many steps are left\<close>

text \<open>
  The number of polls before a deadline, a second apart, and from it a bound on the steps a round
  can still take, however much time the others let pass in between.
\<close>

definition polls_left :: "ctx \<Rightarrow> time \<Rightarrow> nat" where
  "polls_left d t = (case d of None \<Rightarrow> 0 | Some u \<Rightarrow> nat ((u - t + 999999999) div 1000000000))"

fun edit_work :: "edit_pc \<Rightarrow> nat" where
  "edit_work (EditTry ing) = 5"
| "edit_work (EditGet key ing) = 4"
| "edit_work (EditUpdate key ing) = 3"
| "edit_work (EditUnlock key err ing) = 2"
| "edit_work (EditDone r) = 1"

fun wait_work :: "duration \<Rightarrow> wait_pc \<Rightarrow> time \<Rightarrow> nat" where
  "wait_work timeout WaitStart t = 3 * polls_left (Some (t + sint timeout)) t + 3"
| "wait_work timeout (WaitSelect start d) t = 3 * polls_left d t + 2"
| "wait_work timeout (WaitGet start d) t = 3 * (polls_left d t - 1) + 4"
| "wait_work timeout (WaitSleep start d) t = 3 * (polls_left d t - 1) + 3"
| "wait_work timeout (WaitDone r) t = 1"

fun round_work :: "duration \<Rightarrow> round_pc \<Rightarrow> time \<Rightarrow> nat" where
  "round_work timeout (Removing q) t = edit_work q + wait_work timeout WaitStart t + 7"
| "round_work timeout (Waiting ing q) t = wait_work timeout q t + 7"
| "round_work timeout (Observing ing d) t = 7"
| "round_work timeout (Adding d b q) t = edit_work q + 1"
| "round_work timeout (Counting d b ing) t = 1"
| "round_work timeout (RoundDone r) t = 0"

fun timed :: "round_pc \<Rightarrow> bool" where
  "timed (Waiting ing (WaitSelect start d)) \<longleftrightarrow> d \<noteq> None"
| "timed (Waiting ing (WaitGet start d)) \<longleftrightarrow> d \<noteq> None"
| "timed (Waiting ing (WaitSleep start d)) \<longleftrightarrow> d \<noteq> None"
| "timed (Waiting ing WaitStart) \<longleftrightarrow> True"
| "timed (Waiting ing (WaitDone r)) \<longleftrightarrow> True"
| "timed (Removing q) \<longleftrightarrow> True"
| "timed (Observing ing d) \<longleftrightarrow> True"
| "timed (Adding d b q) \<longleftrightarrow> True"
| "timed (Counting d b ing) \<longleftrightarrow> True"
| "timed (RoundDone r) \<longleftrightarrow> True"

lemma polls_mono: "t \<le> u \<Longrightarrow> polls_left d u \<le> polls_left d t"
  by (auto simp: polls_left_def intro!: nat_mono zdiv_mono1 split: option.split)

lemma polls_shift: "polls_left (Some (t + k)) t = polls_left (Some (u + k)) u"
  by (simp add: polls_left_def)

lemma polls_sleep: "t + 1000000000 \<le> u \<Longrightarrow> polls_left d u \<le> polls_left d t - 1"
proof (cases d)
  case (Some v)
  assume "t + 1000000000 \<le> u"
  then have "(v - u + 999999999) div 1000000000 \<le> (v - t + 999999999 - 1000000000) div 1000000000"
    by (intro zdiv_mono1) simp_all
  also have "\<dots> = (v - t + 999999999) div 1000000000 - 1" by simp
  finally show ?thesis using Some by (simp add: polls_left_def nat_le_iff)
qed (simp add: polls_left_def)

lemma polls_before: "d = Some u \<Longrightarrow> t < u \<Longrightarrow> 0 < polls_left d t"
  by (simp add: polls_left_def)

lemma wait_work_mono: "t \<le> u \<Longrightarrow> wait_work timeout q u \<le> wait_work timeout q t"
  using polls_mono [of t u] by (cases q) (auto simp: polls_shift [of u _ t] intro!: diff_le_mono)

lemma round_work_mono: "t \<le> u \<Longrightarrow> round_work timeout q u \<le> round_work timeout q t"
  using wait_work_mono [of t u timeout] by (cases q) (auto simp: polls_shift [of u _ t])

text \<open>The clock, for all calls.\<close>

definition clock_mono :: "'w client \<Rightarrow> bool" where
  "clock_mono c \<longleftrightarrow> clock_ok c \<and>
     (\<forall>ctx ing w. now c w \<le> now c (snd (updateIngress c ctx ing w))) \<and>
     (\<forall>w w'. quiet c w w' \<longrightarrow> now c w \<le> now c w')"

lemma clock_monoD:
  assumes "clock_mono c"
  shows "clock_ok c" and "updateIngress c ctx ing w = (r, w') \<Longrightarrow> now c w \<le> now c w'"
    and "quiet c w w' \<Longrightarrow> now c w \<le> now c w'"
  using assms unfolding clock_mono_def by (metis snd_conv)+

lemma edit_works:
  assumes "clock_mono c" and "edit_step refusal change c ctx q s = Some (q', s')"
  shows "now c (world s) \<le> now c (world s') \<and> edit_work q' < edit_work q"
  using assms(2) clock_ok_get [OF clock_monoD(1) [OF assms(1)]] clock_monoD(2) [OF assms(1)]
  by (cases q) (auto split: prod.splits sum.splits option.splits)

lemma wait_works:
  assumes "clock_mono c" and "wait_step c background timeout ns n q s = Some (q', s')"
    and "timed (Waiting ing q)"
  shows "now c (world s) \<le> now c (world s') \<and>
     wait_work timeout q' (now c (world s')) < wait_work timeout q (now c (world s)) \<and> timed (Waiting ing q')"
proof (cases q)
  case WaitStart
  then show ?thesis using assms(2) by (auto simp: withTimeout_def background_def)
next
  case (WaitSelect start d)
  then obtain u where d: "d = Some u" using assms(3) by auto
  show ?thesis
    using assms(2) WaitSelect d polls_before [OF d, of "now c (world s)"]
    by (auto simp: ctxDone_def split: if_splits)
next
  case (WaitGet start d)
  obtain got w where get: "getIngress c d ns n (world s) = (got, w)"
    by (cases "getIngress c d ns n (world s)")
  have time: "now c (world s) \<le> now c w"
    using clock_ok_get [OF clock_monoD(1) [OF assms(1)] get] .
  from polls_mono [OF this, of d] show ?thesis
    using assms(2,3) WaitGet get time by (auto split: sum.splits outcome.splits)
next
  case (WaitSleep start d)
  have "now c (world s) + 1000000000 \<le> now c (sleep c second (world s))"
    using clock_ok_sleep [OF clock_monoD(1) [OF assms(1)], of second] by simp
  with polls_sleep [OF this, of d] show ?thesis using assms(2,3) WaitSleep by auto
qed (use assms(2) in simp)

lemma round_works:
  assumes "clock_mono c" and "round_step c background no q s = Some (q', s')" and "timed q"
    and timeout: "timeout = AnnotationRemovalDelay (Spec no) * second"
  shows "now c (world s) \<le> now c (world s') \<and>
     round_work timeout q' (now c (world s')) < round_work timeout q (now c (world s)) \<and> timed q'"
proof (cases q)
  case (Removing e)
  from assms(2) [unfolded Removing round_step.simps] show ?thesis
  proof (cases rule: in_frame_cases)
    case (inner e')
    then show ?thesis
      using edit_works [OF assms(1), of _ _ background e s e' s'] Removing
        polls_shift [of "now c (world s')" "sint timeout" "now c (world s)"]
      by (simp add: remove_step_def)
  qed (use Removing in \<open>auto simp: removed_def split: prod.split option.split elim: edit_result.elims\<close>)
next
  case (Adding d b e)
  from assms(2) [unfolded Adding round_step.simps] show ?thesis
  proof (cases rule: in_frame_cases)
    case (inner e')
    then show ?thesis
      using edit_works [OF assms(1), of _ _ background e s e' s'] Adding by (simp add: add_step_def)
  qed (use Adding in \<open>auto simp: added_def split: prod.split option.split elim: edit_result.elims\<close>)
next
  case (Waiting ing w)
  from assms(2) [unfolded Waiting round_step.simps] show ?thesis
  proof (cases rule: in_frame_cases)
    case (inner w')
    then show ?thesis
      using wait_works [OF assms(1) inner(2) [folded timeout]] assms(3) Waiting by simp
  qed (use Waiting in \<open>auto simp: waited_def split: prod.split option.split elim: wait_result.elims\<close>)
qed (use assms(2) in \<open>auto simp: Let_def split: if_splits\<close>)

end
