(* ===== verification/OperatorConc.thy ===== *)
theory OperatorConc
  imports RoundSteps
begin

text \<open>
  The operator with its two goroutines interleaved: the informer's handlers and the audit take turns
  step by step on one named mutex, one set of metrics and one cluster, which others change between
  the steps as far as a relation \<open>R\<close> on worlds allows. A panic of either goroutine ends the process.
\<close>

section \<open>Interleaved runs\<close>

record 'w conc =
  points :: "goroutine \<Rightarrow> go_point"
  shared :: "'w operator"

definition conc_start :: "'w \<Rightarrow> 'w conc" where
  "conc_start w = \<lparr>points = (\<lambda>i. case i of
       Informer \<Rightarrow> InHandler (HandlerDone (Ret ())) | Auditor \<Rightarrow> InAudit (AuditDone (Ret None))),
     shared = operator_start w\<rparr>"

definition panicked :: "go_point \<Rightarrow> bool" where
  "panicked p = (case go_result p of Some (Panic x) \<Rightarrow> True | _ \<Rightarrow> False)"

definition alive :: "'w conc \<Rightarrow> bool" where
  "alive z \<longleftrightarrow> \<not> panicked (points z Informer) \<and> \<not> panicked (points z Auditor)"

datatype actor = Event obj | Tick | Go goroutine | Others

inductive conc_step :: "'w client \<Rightarrow> ('w \<Rightarrow> 'w \<Rightarrow> bool) \<Rightarrow> actor \<Rightarrow> 'w conc \<Rightarrow> 'w conc \<Rightarrow> bool" for c R where
  conc_event: "alive z \<Longrightarrow> points z Informer = InHandler (HandlerDone r) \<Longrightarrow>
     conc_step c R (Event ob) z (z\<lparr>points := (points z)(Informer := InHandler (HandlerEvent ob))\<rparr>)"
| conc_tick: "alive z \<Longrightarrow> points z Auditor = InAudit (AuditDone r) \<Longrightarrow>
     conc_step c R Tick z (z\<lparr>points := (points z)(Auditor := InAudit AuditList)\<rparr>)"
| conc_go: "alive z \<Longrightarrow> go_step c (points z i) (shared z) = Some (q, s) \<Longrightarrow>
     conc_step c R (Go i) z (z\<lparr>points := (points z)(i := q), shared := s\<rparr>)"
| conc_others: "alive z \<Longrightarrow> R (world (shared z)) w \<Longrightarrow>
     conc_step c R Others z (z\<lparr>shared := (shared z)\<lparr>world := w\<rparr>\<rparr>)"

inductive conc_exec :: "'w client \<Rightarrow> ('w \<Rightarrow> 'w \<Rightarrow> bool) \<Rightarrow> actor list \<Rightarrow> 'w conc \<Rightarrow> 'w conc \<Rightarrow> bool" for c R where
  exec_nil: "conc_exec c R [] z z"
| exec_cons: "conc_step c R a z y \<Longrightarrow> conc_exec c R as y x \<Longrightarrow> conc_exec c R (a # as) z x"

inductive_cases exec_consE: "conc_exec c R (a # as) z x"

definition conc_reach :: "'w client \<Rightarrow> ('w \<Rightarrow> 'w \<Rightarrow> bool) \<Rightarrow> 'w conc \<Rightarrow> bool" where
  "conc_reach c R z \<longleftrightarrow> (\<exists>w as. conc_exec c R as (conc_start w) z)"

section \<open>What a step does to the rounds\<close>

definition rounds_at :: "'w conc \<Rightarrow> goroutine \<Rightarrow> round_at" where
  "rounds_at z i = go_round (points z i)"

text \<open>
  Seen from the rounds, a step of the system is a step of one goroutine's round, or leaves the
  rounds of the others alone, ends a finished round or begins a new one, and only changes the world:
  by a quiet call or by what \<open>R\<close> allows.
\<close>

lemma conc_step_cases:
  assumes "conc_step c R a z y"
  obtains (round) i no q q' where "a = Go i" and "rounds_at z i = Some (no, q)"
      and "round_step c background no q (shared z) = Some (q', shared y)"
      and "rounds_at y = (rounds_at z)(i := Some (no, q'))"
  | (quiet) i w where "\<forall>j. j \<noteq> i \<longrightarrow> a \<noteq> Go j" and "resting (rounds_at z i)" and "fresh (rounds_at y i)"
      and "\<And>j. j \<noteq> i \<Longrightarrow> rounds_at y j = rounds_at z j"
      and "quiet c (world (shared z)) w" and "shared y = (shared z)\<lparr>world := w\<rparr>"
  | (others) w where "a = Others" and "rounds_at y = rounds_at z" and "R (world (shared z)) w"
      and "shared y = (shared z)\<lparr>world := w\<rparr>"
  using assms
proof cases
  case (conc_event r ob)
  then show thesis
    by (intro quiet [of Informer "world (shared z)"]) (auto simp: rounds_at_def quiet_refl)
next
  case (conc_tick r)
  then show thesis
    by (intro quiet [of Auditor "world (shared z)"]) (auto simp: rounds_at_def quiet_refl)
next
  case (conc_go i q s)
  from go_host.hosts [OF conc_go(4)] show thesis
    unfolding hosted_step_def
  proof (elim disjE exE conjE)
    fix no p p'
    assume "go_round (points z i) = Some (no, p)" "round_step c background no p (shared z) = Some (p', s)"
      "go_round q = Some (no, p')"
    with conc_go show thesis by (intro round [of i no p p']) (auto simp: rounds_at_def fun_eq_iff)
  next
    assume "resting (go_round (points z i))" "fresh (go_round q)" "quiet_step c (shared z) s"
    with conc_go show thesis by (auto simp: rounds_at_def quiet_step_def intro!: quiet [of i])
  qed
next
  case (conc_others w)
  then show thesis by (intro others [of w]) (auto simp: rounds_at_def fun_eq_iff)
qed

definition at_round :: "(round_pc \<Rightarrow> 'a) \<Rightarrow> 'a \<Rightarrow> round_at \<Rightarrow> 'a" where
  "at_round f d r = (case r of None \<Rightarrow> d | Some (no, q) \<Rightarrow> f q)"

abbreviation holds_at :: "round_at \<Rightarrow> string option" where
  "holds_at \<equiv> at_round round_holds None"

abbreviation site_at :: "round_at \<Rightarrow> (bool \<times> edit_pc) option" where
  "site_at \<equiv> at_round round_site None"

lemma at_round_simps [simp]:
  "at_round f d None = d" "at_round f d (Some (no, q)) = f q"
  by (simp_all add: at_round_def)

lemma resting_cases:
  assumes "resting r" obtains "r = None" | no x where "r = Some (no, RoundDone x)"
  using assms by (auto simp: resting_def split: option.splits elim: round_result.elims)

lemma fresh_cases:
  assumes "fresh r" obtains "r = None" | no ing where "r = Some (no, Removing (EditTry ing))"
  using assms by (auto simp: fresh_def split: option.splits)

section \<open>Invariants\<close>

definition conc_inv :: "'w conc \<Rightarrow> bool" where
  "conc_inv z \<longleftrightarrow>
     mutex_ok (shared z) \<and>
     (\<forall>i k. holds_at (rounds_at z i) = Some k \<longrightarrow> k \<in> held_names (shared z)) \<and>
     (\<forall>i j k. holds_at (rounds_at z i) = Some k \<longrightarrow> holds_at (rounds_at z j) = Some k \<longrightarrow> i = j) \<and>
     (\<forall>i. at_round timed True (rounds_at z i)) \<and>
     CertificateRenewalsTotal (shared z) + at_round uncounted 0 (rounds_at z Informer)
       + at_round uncounted 0 (rounds_at z Auditor) \<le> length (AnnotationUpdatesDuration (shared z))"

lemma resting_values:
  assumes "resting r"
  shows "holds_at r = None" "at_round uncounted 0 r = 0" "at_round timed True r" "site_at r = None"
  using assms by (auto elim!: resting_cases)

lemma fresh_values:
  assumes "fresh r"
  shows "holds_at r = None" "at_round uncounted 0 r = 0" "at_round timed True r"
    and "keyed (site_at r)" "current st (site_at r)"
  using assms by (auto elim!: fresh_cases)

lemma conc_inv_quiet:
  assumes "conc_inv z" and "resting (rounds_at z i)" and "fresh (rounds_at y i)"
    and "\<And>j. j \<noteq> i \<Longrightarrow> rounds_at y j = rounds_at z j" and "shared y = (shared z)\<lparr>world := w\<rparr>"
  shows "conc_inv y"
proof -
  have holds: "holds_at (rounds_at y j) = holds_at (rounds_at z j)"
    and count: "at_round uncounted 0 (rounds_at y j) = at_round uncounted 0 (rounds_at z j)"
    and timed: "at_round timed True (rounds_at y j) = at_round timed True (rounds_at z j)" for j
    using assms(4) [of j] resting_values [OF assms(2)] fresh_values [OF assms(3)] by (cases "j = i"; simp)+
  show ?thesis using assms(1,5) unfolding conc_inv_def holds count timed by simp
qed

lemma timed_step:
  "round_step c background no q s = Some (q', s') \<Longrightarrow> timed q \<Longrightarrow> timed q'"
  by (cases q)
     (auto simp: Let_def removed_def added_def waited_def withTimeout_def background_def
        elim!: in_frame_cases split: prod.splits option.splits if_splits sum.splits outcome.splits
        elim: timed.elims)

lemma conc_inv_round:
  assumes inv: "conc_inv z" and at: "rounds_at z i = Some (no, q)"
    and step: "round_step c background no q (shared z) = Some (q', shared y)"
    and other: "rounds_at y = (rounds_at z)(i := Some (no, q'))"
  shows "conc_inv y"
proof -
  have claim: "holds_at (rounds_at z i) = round_holds q" using at by simp
  have locked: "holds_locked (round_holds q) (shared z)"
    using inv unfolding conc_inv_def holds_locked_def claim [symmetric] by blast
  from round_locks [OF step locked]
  have after: "holds_locked (round_holds q') (shared y)"
    and move: "lock_move (round_holds q) (held_names (shared z)) (round_holds q') (held_names (shared y))"
    by simp_all
  have mine: "holds_at (rounds_at y i) = round_holds q'" and
    others: "j \<noteq> i \<Longrightarrow> holds_at (rounds_at y j) = holds_at (rounds_at z j)" for j
    using other by simp_all
  have held: "k \<in> held_names (shared y)" "round_holds q' \<noteq> Some k"
    if "j \<noteq> i" "holds_at (rounds_at z j) = Some k" for j k
  proof -
    have "k \<in> held_names (shared z)" using inv that unfolding conc_inv_def by blast
    moreover have "round_holds q \<noteq> Some k"
    proof
      assume "round_holds q = Some k"
      then have "holds_at (rounds_at z i) = Some k" using at by simp
      with inv that show False unfolding conc_inv_def by blast
    qed
    ultimately have "k \<in> held_names (shared y) \<and> round_holds q' \<noteq> Some k"
      by (rule lock_move_other [OF move])
    then show "k \<in> held_names (shared y)" "round_holds q' \<noteq> Some k" by blast+
  qed
  have "mutex_ok (shared y)" using after by (simp add: holds_locked_def)
  moreover have "k \<in> held_names (shared y)" if "holds_at (rounds_at y j) = Some k" for j k
    using that after held(1) [of j k] mine others [of j] by (cases "j = i") (auto simp: holds_locked_def)
  moreover have "j = l" if "holds_at (rounds_at y j) = Some k" "holds_at (rounds_at y l) = Some k" for j l k
  proof (rule ccontr)
    assume "j \<noteq> l"
    then consider "j = i" "l \<noteq> i" | "j \<noteq> i" "l = i" | "j \<noteq> i" "l \<noteq> i" by blast
    then show False
    proof cases
      case 1
      with held(2) [of l k] that mine others show False by simp
    next
      case 2
      with held(2) [of j k] that mine others show False by simp
    next
      case 3
      with that others have "holds_at (rounds_at z j) = Some k" "holds_at (rounds_at z l) = Some k" by simp_all
      with inv \<open>j \<noteq> l\<close> show False unfolding conc_inv_def by blast
    qed
  qed
  moreover have "at_round timed True (rounds_at y j)" for j
  proof (cases "j = i")
    case True
    have "at_round timed True (rounds_at z i)" using inv unfolding conc_inv_def by blast
    with at timed_step [OF step] other True show ?thesis by simp
  next
    case False
    then show ?thesis using inv other unfolding conc_inv_def by simp
  qed
  moreover have "CertificateRenewalsTotal (shared y) + at_round uncounted 0 (rounds_at y Informer)
       + at_round uncounted 0 (rounds_at y Auditor) \<le> length (AnnotationUpdatesDuration (shared y))"
    using inv round_metrics [OF step, of "at_round uncounted 0 (rounds_at z Auditor)"]
      round_metrics [OF step, of "at_round uncounted 0 (rounds_at z Informer)"] at other
    by (cases i) (auto simp: conc_inv_def ac_simps)
  ultimately show ?thesis unfolding conc_inv_def by blast
qed

lemma conc_step_inv: "conc_step c R a z y \<Longrightarrow> conc_inv z \<Longrightarrow> conc_inv y"
proof (erule conc_step_cases)
  fix w
  assume "conc_inv z" "rounds_at y = rounds_at z" "shared y = (shared z)\<lparr>world := w\<rparr>"
  then show "conc_inv y" by (simp add: conc_inv_def)
qed (blast intro: conc_inv_round conc_inv_quiet)+

lemma conc_start_inv: "conc_inv (conc_start w)"
  by (auto simp: conc_inv_def conc_start_def rounds_at_def split: goroutine.split)

lemma conc_exec_inv: "conc_exec c R as z y \<Longrightarrow> conc_inv z \<Longrightarrow> conc_inv y"
  by (induction rule: conc_exec.induct) (auto intro: conc_step_inv)

lemma conc_reach_inv: "conc_reach c R z \<Longrightarrow> conc_inv z"
  by (auto simp: conc_reach_def intro: conc_exec_inv conc_start_inv)


section \<open>Edits of one Ingress do not overlap\<close>

definition store_inv :: "(string \<times> string) \<Rightarrow> ('w \<Rightarrow> store_view) \<Rightarrow> 'w conc \<Rightarrow> bool" where
  "store_inv name stored z \<longleftrightarrow>
     (\<forall>i. keyed (site_at (rounds_at z i))) \<and>
     (\<forall>i b key ing. site_at (rounds_at z i) = Some (b, EditUpdate key ing) \<longrightarrow> object_name ing = name \<longrightarrow>
        (\<exists>old. stored (world (shared z)) name = Some old \<and> ing = old\<lparr>Annotations := changed b (Annotations old)\<rparr>))"

lemma holds_site: "site_at r = Some (b, EditUpdate key ing) \<Longrightarrow> holds_at r = Some key"
  by (auto simp: at_round_def round_holds_def split: option.splits)

lemma store_inv_step:
  assumes step: "conc_step c R a z y" and inv: "conc_inv z" and "store_inv name stored z"
    and laws: "stores c stored" and quiet_others: "\<And>w w'. R w w' \<Longrightarrow> stored w' name = stored w name"
  shows "store_inv name stored y"
  using step
proof (cases rule: conc_step_cases)
  case (others w)
  then show ?thesis using assms(3) quiet_others by (simp add: store_inv_def)
next
  case (quiet i w)
  have same: "stored (world (shared y)) = stored (world (shared z))"
    using storesD(5) [OF laws quiet(5)] quiet(6) by simp
  have site: "site_at (rounds_at y j) = site_at (rounds_at z j) \<or>
      j = i \<and> keyed (site_at (rounds_at y j)) \<and> current st (site_at (rounds_at y j))" for j st
    using quiet(4) [of j] fresh_values [OF quiet(3)] by (cases "j = i") auto
  show ?thesis
    using assms(3) same site unfolding store_inv_def current_def by metis
next
  case (round i no q q')
  have keyed: "keyed (round_site q)"
    using assms(3) round(2) unfolding store_inv_def by (metis at_round_simps(2))
  note step = round_store [OF laws keyed round(3)]
  show ?thesis
    unfolding store_inv_def
  proof (intro conjI allI impI)
    fix j
    show "keyed (site_at (rounds_at y j))"
      using step round(4) assms(3) by (cases "j = i") (auto simp: store_inv_def)
  next
    fix j b key ing
    assume at: "site_at (rounds_at y j) = Some (b, EditUpdate key ing)" and name: "object_name ing = name"
    show "\<exists>old. stored (world (shared y)) name = Some old \<and> ing = old\<lparr>Annotations := changed b (Annotations old)\<rparr>"
    proof (cases "j = i")
      case True
      with step at round(4) name show ?thesis by (auto simp: current_def)
    next
      case False
      then have before: "site_at (rounds_at z j) = Some (b, EditUpdate key ing)" using at round(4) by simp
      have "name \<notin> writes (round_site q)"
      proof
        assume "name \<in> writes (round_site q)"
        then obtain b' key' ing' where w: "round_site q = Some (b', EditUpdate key' ing')" "name = object_name ing'"
          by (auto simp: writes_def)
        have "keyed (site_at (rounds_at z j))" using assms(3) by (simp add: store_inv_def)
        then have "key' = key" using w keyed before name same_key [of ing ing'] by simp
        then have "holds_at (rounds_at z i) = Some key" "holds_at (rounds_at z j) = Some key"
          using w round(2) holds_site [OF before] by (simp_all add: round_holds_def)
        with inv False show False unfolding conc_inv_def by blast
      qed
      then have "stored (world (shared y)) name = stored (world (shared z)) name" using step by blast
      then show ?thesis using assms(3) before name unfolding store_inv_def by metis
    qed
  qed
qed

lemma store_inv_exec:
  assumes "conc_exec c R as z y" and "conc_inv z" and "store_inv name stored z"
    and "stores c stored" and "\<And>w w'. R w w' \<Longrightarrow> stored w' name = stored w name"
  shows "store_inv name stored y"
  using assms
  by (induction rule: conc_exec.induct) (blast intro: store_inv_step conc_step_inv)+

lemma store_inv_start: "store_inv name stored (conc_start w)"
  by (auto simp: store_inv_def conc_start_def rounds_at_def split: goroutine.splits)

section \<open>Rounds end\<close>

lemma conc_step_time:
  assumes "conc_step c R a z y" and "clock_mono c" and "conc_inv z"
    and "\<And>w w'. R w w' \<Longrightarrow> now c w \<le> now c w'"
  shows "now c (world (shared z)) \<le> now c (world (shared y))"
  using assms(1)
proof (cases rule: conc_step_cases)
  case (round i no q q')
  have "at_round timed True (rounds_at z i)" using assms(3) unfolding conc_inv_def by blast
  then show ?thesis using round_works [OF assms(2) round(3) _ refl] round(2) by simp
next
  case (quiet i w)
  then show ?thesis using clock_monoD(3) [OF assms(2) quiet(5)] by simp
next
  case (others w)
  then show ?thesis using assms(4) by simp
qed

text \<open>One step, for a goroutine in a round that is not finished: its own steps use up work, the others' do not add any.\<close>

lemma round_progress:
  assumes "conc_step c R a z y" and mono: "clock_mono c" and inv: "conc_inv z"
    and "\<And>w w'. R w w' \<Longrightarrow> now c w \<le> now c w'"
    and at: "rounds_at z i = Some (no, q)" and "round_result q = None"
    and timeout: "timeout = AnnotationRemovalDelay (Spec no) * second"
  shows "\<exists>q'. rounds_at y i = Some (no, q') \<and>
     round_work timeout q' (now c (world (shared y))) + (if a = Go i then 1 else 0)
       \<le> round_work timeout q (now c (world (shared z)))"
  using assms(1)
proof (cases rule: conc_step_cases)
  case (round j no' p p')
  show ?thesis
  proof (cases "j = i")
    case True
    have "at_round timed True (rounds_at z i)" using inv unfolding conc_inv_def by blast
    with round True at have "timed q" "round_step c background no q (shared z) = Some (p', shared y)" by simp_all
    with round_works [OF mono _ _ timeout] round True at show ?thesis by fastforce
  next
    case False
    then show ?thesis
      using round at round_work_mono [OF conc_step_time [OF assms(1) mono inv assms(4)], of timeout q] by auto
  qed
next
  case (quiet j w)
  have "j \<noteq> i" using quiet(2) at assms(6) by (auto simp: resting_def)
  then show ?thesis
    using quiet at round_work_mono [OF conc_step_time [OF assms(1) mono inv assms(4)], of timeout q] by auto
next
  case (others w)
  then show ?thesis
    using at round_work_mono [OF conc_step_time [OF assms(1) mono inv assms(4)], of timeout q] by auto
qed

lemma round_ends:
  assumes "conc_exec c R as z y" and "clock_mono c" and "conc_inv z"
    and "\<And>w w'. R w w' \<Longrightarrow> now c w \<le> now c w'"
    and "rounds_at z i = Some (no, q)"
    and "timeout = AnnotationRemovalDelay (Spec no) * second"
    and "round_work timeout q (now c (world (shared z))) < length (filter (\<lambda>a. a = Go i) as)"
  shows "\<exists>as1 as2 x r. as = as1 @ as2 \<and> conc_exec c R as1 z x \<and> conc_exec c R as2 x y \<and>
     rounds_at x i = Some (no, RoundDone r)"
  using assms
proof (induction arbitrary: q rule: conc_exec.induct)
  case (exec_nil z)
  then show ?case by simp
next
  case (exec_cons a z y as x)
  show ?case
  proof (cases "round_result q")
    case (Some r)
    then have "rounds_at z i = Some (no, RoundDone r)" using exec_cons.prems(4) by (auto elim: round_result.elims)
    then show ?thesis
      using conc_exec.intros(1) [of c R z] conc_exec.intros(2) [OF exec_cons.hyps(1,2)] by blast
  next
    case None
    obtain q' where q': "rounds_at y i = Some (no, q')"
      "round_work timeout q' (now c (world (shared y))) + (if a = Go i then 1 else 0)
        \<le> round_work timeout q (now c (world (shared z)))"
      using round_progress [OF exec_cons.hyps(1) exec_cons.prems(1-4) None exec_cons.prems(5)] by blast
    have "round_work timeout q' (now c (world (shared y))) < length (filter (\<lambda>a. a = Go i) as)"
      using q'(2) exec_cons.prems(6) by (auto split: if_splits)
    from exec_cons.IH [OF exec_cons.prems(1) conc_step_inv [OF exec_cons.hyps(1) exec_cons.prems(2)]
        exec_cons.prems(3) q'(1) exec_cons.prems(5) this]
    obtain as1 as2 w r where "as = as1 @ as2" "conc_exec c R as1 y w" "conc_exec c R as2 w x"
      "rounds_at w i = Some (no, RoundDone r)" by blast
    moreover have "conc_exec c R (a # as1) z w"
      using exec_cons.hyps(1) \<open>conc_exec c R as1 y w\<close> by (rule conc_exec.exec_cons)
    ultimately show ?thesis
      by (intro exI [of _ "a # as1"] exI [of _ as2] exI [of _ w] exI [of _ r]) simp
  qed
qed

lemma goroutine_moves:
  assumes "conc_inv z" and "alive z" and "rounds_at z i = Some (no, q)" and "round_result q = None"
  shows "\<exists>y. conc_step c R (Go i) z y"
proof -
  have "mutex_ok (shared z)" using assms(1) by (simp add: conc_inv_def)
  then obtain p s where "go_step c (points z i) (shared z) = Some (p, s)"
    using go_host.enables [of "points z i" no q c "shared z"] round_moves [OF assms(4)] assms(3)
    unfolding rounds_at_def by blast
  with assms(2) show ?thesis by (blast intro: conc_go)
qed

end
