(* ===== verification/ConcProperties.thy ===== *)
theory ConcProperties
  imports OperatorConc
begin

text \<open>
  What holds of the operator's goroutines under every interleaving, and one schedule that shows what
  does not. Concrete schedules are computed on the clusters of \<open>FakeCluster\<close>.
\<close>

section \<open>Concrete runs\<close>

fun conc_act :: "'w client \<Rightarrow> actor \<Rightarrow> 'w conc \<Rightarrow> 'w conc option" where
  "conc_act c (Event ob) z = (case points z Informer of
      InHandler (HandlerDone r) \<Rightarrow> Some (z\<lparr>points := (points z)(Informer := InHandler (HandlerEvent ob))\<rparr>)
    | _ \<Rightarrow> None)"
| "conc_act c Tick z = (case points z Auditor of
      InAudit (AuditDone r) \<Rightarrow> Some (z\<lparr>points := (points z)(Auditor := InAudit AuditList)\<rparr>)
    | _ \<Rightarrow> None)"
| "conc_act c (Go i) z = (case go_step c (points z i) (shared z) of
      None \<Rightarrow> None | Some (q, s) \<Rightarrow> Some (z\<lparr>points := (points z)(i := q), shared := s\<rparr>))"
| "conc_act c Others z = None"

fun conc_run :: "'w client \<Rightarrow> actor list \<Rightarrow> 'w conc \<Rightarrow> 'w conc option" where
  "conc_run c [] z = Some z"
| "conc_run c (a # as) z =
     (if alive z then (case conc_act c a z of None \<Rightarrow> None | Some y \<Rightarrow> conc_run c as y) else None)"

lemma conc_act_step: "conc_act c a z = Some y \<Longrightarrow> alive z \<Longrightarrow> conc_step c R a z y"
  by (cases a) (auto intro: conc_step.intros split: option.splits go_point.splits handler_pc.splits audit_pc.splits)

lemma conc_run_exec: "conc_run c as z = Some y \<Longrightarrow> conc_exec c R as z y"
  by (induction as arbitrary: z) (auto intro: conc_exec.intros conc_act_step split: option.splits if_splits)

text \<open>The state a schedule leads to, with what is computed of it.\<close>

definition runs_into :: "'w client \<Rightarrow> actor list \<Rightarrow> 'w conc \<Rightarrow> ('w conc \<Rightarrow> bool) \<Rightarrow> bool" where
  "runs_into c as z P \<longleftrightarrow> (case conc_run c as z of None \<Rightarrow> False | Some y \<Rightarrow> P y)"

lemma runs_intoE:
  assumes "runs_into c as z P"
  obtains y where "conc_exec c R as z y" and "P y"
  using assms conc_run_exec [of c as z _ R] by (auto simp: runs_into_def split: option.splits)

lemma exec_reach: "conc_exec c R as (conc_start w) z \<Longrightarrow> conc_reach c R z"
  by (auto simp: conc_reach_def)

definition two_seconds :: NimbleOpti where
  "two_seconds = \<lparr>no_Namespace = ''shop'', no_Name = ''shop'',
     Spec = \<lparr>TargetNamespace = ''shop'', CertificateRenewalThreshold = 30, AnnotationRemovalDelay = 2\<rparr>,
     Status = emptyStatus\<rparr>"

definition slow_cluster :: cluster where
  "slow_cluster = small_cluster\<lparr>optis := [(''shop'', ''shop'') \<mapsto> two_seconds], solver := 100000000000\<rparr>"

text \<open>A cluster client that shows what is stored and never empties a rule.\<close>

definition plain :: "cluster client" where
  "plain = fake\<lparr>getIngress := (\<lambda>ctx ns n w. (case ings w (ns, n) of
      None \<Rightarrow> Inl NotFound | Some i \<Rightarrow> Inr (i\<lparr>Namespace := ns, Name := n\<rparr>), tick w))\<rparr>"

definition plain_view :: "cluster \<Rightarrow> store_view" where
  "plain_view w = (\<lambda>(ns, n). map_option (\<lambda>i. i\<lparr>Namespace := ns, Name := n\<rparr>) (ings w (ns, n)))"

lemma fake_quiet:
  assumes "quiet fake w w'"
  shows "ings w' = ings w" and "clk w \<le> clk w'"
  using assms
  by (cases; auto simp: fake_simps split: option.splits list.splits)+

lemma plain_quiet: "quiet plain w w' \<Longrightarrow> quiet fake w w'"
  by (erule quiet.cases) (auto simp: plain_def intro: quiet.intros)

lemma plain_stores: "stores plain plain_view"
  unfolding stores_def
proof (intro conjI allI impI)
  fix w w' assume "quiet plain w w'"
  then show "plain_view w' = plain_view w"
    using fake_quiet(1) [OF plain_quiet] by (simp add: plain_view_def)
qed (auto simp: plain_def plain_view_def fake_simps object_name_def fun_eq_iff split: option.splits if_splits)

lemma fake_clock_mono: "clock_mono fake"
  unfolding clock_mono_def
proof (intro conjI allI impI)
  show "now fake w \<le> now fake w'" if "quiet fake w w'" for w w'
    using fake_quiet(2) [OF that] by (simp add: fake_def)
qed (auto simp: fake_simps clock_ok_def split: option.splits)

section \<open>Properties\<close>

text \<open>
  C4. Under every interleaving of the informer's handlers with the audit, and whatever others do to
  the cluster, the two goroutines are never inside the edit of the same Ingress together: the name a
  goroutine holds between its \<open>TryLock\<close> and its \<open>Unlock\<close> is marked in the named mutex and no other
  goroutine holds it.
\<close>

theorem concurrent_edits_exclude:
  assumes "conc_reach c R z"
    and "go_round (points z i) = Some (no, q)" and "round_holds q = Some k"
  shows "k \<in> held_names (shared z) \<and>
     (\<forall>j no' q'. j \<noteq> i \<longrightarrow> go_round (points z j) = Some (no', q') \<longrightarrow> round_holds q' \<noteq> Some k)"
proof -
  have inv: "conc_inv z" using assms(1) by (rule conc_reach_inv)
  have mine: "holds_at (rounds_at z i) = Some k" using assms(2,3) by (simp add: rounds_at_def)
  moreover have "round_holds q' \<noteq> Some k" if "j \<noteq> i" "go_round (points z j) = Some (no', q')" for j no' q'
  proof
    assume "round_holds q' = Some k"
    then have "holds_at (rounds_at z j) = Some k" using that by (simp add: rounds_at_def)
    with inv mine that(1) show False unfolding conc_inv_def by blast
  qed
  ultimately show ?thesis using inv unfolding conc_inv_def by blast
qed

definition editing :: "'w conc \<Rightarrow> bool" where
  "editing z \<longleftrightarrow> (case go_round (points z Informer) of
     Some (no, q) \<Rightarrow> round_holds q = Some ''shop/web'' | None \<Rightarrow> False)"

theorem concurrent_edits_exclude_witness:
  "\<exists>z no q. conc_reach fake (=) z \<and> go_round (points z Informer) = Some (no, q) \<and>
     round_holds q = Some ''shop/web'' \<and> ''shop/web'' \<in> held_names (shared z)"
proof -
  have "runs_into fake (Event (ObjIngress example_ingress) # replicate 4 (Go Informer))
      (conc_start slow_cluster) editing"
    by code_simp
  then obtain z where "conc_exec fake (=) (Event (ObjIngress example_ingress) # replicate 4 (Go Informer))
      (conc_start slow_cluster) z" and "editing z" by (rule runs_intoE)
  then have "conc_reach fake (=) z" "editing z" by (auto intro: exec_reach)
  then obtain no q where "go_round (points z Informer) = Some (no, q)" "round_holds q = Some ''shop/web''"
    by (auto simp: editing_def split: option.splits)
  with concurrent_edits_exclude [OF \<open>conc_reach fake (=) z\<close>] \<open>conc_reach fake (=) z\<close> show ?thesis by blast
qed

text \<open>
  C5. The operator's edits lose no update of its own: when a goroutine is about to send an Ingress,
  what it sends is what the server stores at that moment with the one annotation changed, although
  the other goroutine ran between its read and its write, provided nobody else writes that Ingress.
\<close>

theorem concurrent_edits_keep_updates:
  assumes "stores c stored" and "\<And>w w'. R w w' \<Longrightarrow> stored w' (object_name ing) = stored w (object_name ing)"
    and "conc_reach c R z"
    and "go_round (points z i) = Some (no, q)" and "round_site q = Some (adding, EditUpdate key ing)"
  shows "\<exists>old. stored (world (shared z)) (object_name ing) = Some old \<and>
     ing = old\<lparr>Annotations := changed adding (Annotations old)\<rparr>"
proof -
  obtain w as where exec: "conc_exec c R as (conc_start w) z"
    using assms(3) by (auto simp: conc_reach_def)
  have "store_inv (object_name ing) stored z"
    by (rule store_inv_exec [OF exec conc_start_inv store_inv_start assms(1,2)])
  moreover have "site_at (rounds_at z i) = Some (adding, EditUpdate key ing)"
    using assms(4,5) by (simp add: rounds_at_def)
  ultimately show ?thesis unfolding store_inv_def by blast
qed

fun updating :: "round_at \<Rightarrow> bool" where
  "updating (Some (no, Removing (EditUpdate key ing))) \<longleftrightarrow> Name ing = ''web''"
| "updating _ \<longleftrightarrow> False"

theorem concurrent_edits_keep_updates_witness:
  "\<exists>z no q key ing old. conc_reach plain (=) z \<and> go_round (points z Informer) = Some (no, q) \<and>
     round_site q = Some (False, EditUpdate key ing) \<and> Name ing = ''web'' \<and>
     plain_view (world (shared z)) (object_name ing) = Some old \<and>
     ing = old\<lparr>Annotations := without_https (Annotations old)\<rparr>"
proof -
  let ?as = "Event (ObjIngress example_ingress) # replicate 5 (Go Informer)"
  have "runs_into plain ?as (conc_start slow_cluster) (\<lambda>z. updating (go_round (points z Informer)))"
    by code_simp
  then obtain z where run: "conc_exec plain (=) ?as (conc_start slow_cluster) z"
    "updating (go_round (points z Informer))" by (rule runs_intoE)
  then obtain no q key ing where at: "go_round (points z Informer) = Some (no, q)"
    "round_site q = Some (False, EditUpdate key ing)" "Name ing = ''web''"
    by (auto elim: updating.elims)
  have reach: "conc_reach plain (=) z" using run(1) by (rule exec_reach)
  obtain old where "plain_view (world (shared z)) (object_name ing) = Some old"
    "ing = old\<lparr>Annotations := changed False (Annotations old)\<rparr>"
    using concurrent_edits_keep_updates [OF plain_stores _ reach at(1,2)] by auto
  with reach at show ?thesis unfolding changed_def by auto
qed

text \<open>
  C7. A renewal round ends whatever the other goroutine and the cluster do in between: after at most
  three steps for each second of the delay and fifteen more of its own it has returned, as long as
  the delay in nanoseconds fits 64 bits, and before that it is never blocked, while the process lives.
\<close>

theorem interleaved_round_ends:
  assumes "clock_mono c" and "\<And>w w'. R w w' \<Longrightarrow> now c w \<le> now c w'"
    and "conc_reach c R z" and "conc_exec c R as z y"
    and "go_round (points z i) = Some (no, Removing (EditTry ing))"
    and "0 \<le> sint (AnnotationRemovalDelay (Spec no))" and "sint (AnnotationRemovalDelay (Spec no)) \<le> 9223372036"
  shows "(3 * nat (sint (AnnotationRemovalDelay (Spec no))) + 15 < length (filter (\<lambda>a. a = Go i) as) \<longrightarrow>
       (\<exists>as1 as2 x r. as = as1 @ as2 \<and> conc_exec c R as1 z x \<and> conc_exec c R as2 x y \<and>
          go_round (points x i) = Some (no, RoundDone r))) \<and>
     (\<forall>q. go_round (points y i) = Some (no, q) \<longrightarrow> round_result q = None \<longrightarrow> alive y \<longrightarrow>
        (\<exists>x. conc_step c R (Go i) y x))"
proof -
  let ?d = "sint (AnnotationRemovalDelay (Spec no))"
  let ?timeout = "AnnotationRemovalDelay (Spec no) * second"
  have inv: "conc_inv z" using assms(3) by (rule conc_reach_inv)
  have "sint ?timeout = ?d * 1000000000"
    using assms(6,7) by (subst sint_mult_64) simp_all
  then have "polls_left (Some (t + sint ?timeout)) t = nat ?d" for t
    by (simp add: polls_left_def)
  then have work: "round_work ?timeout (Removing (EditTry ing)) (now c (world (shared z))) = 3 * nat ?d + 15"
    by simp
  have at: "rounds_at z i = Some (no, Removing (EditTry ing))" using assms(5) by (simp add: rounds_at_def)
  have "\<exists>as1 as2 x r. as = as1 @ as2 \<and> conc_exec c R as1 z x \<and> conc_exec c R as2 x y \<and>
      go_round (points x i) = Some (no, RoundDone r)"
    if "3 * nat ?d + 15 < length (filter (\<lambda>a. a = Go i) as)"
    using round_ends [OF assms(4,1) inv assms(2) at refl] that unfolding work rounds_at_def by blast
  moreover have "\<exists>x. conc_step c R (Go i) y x"
    if "go_round (points y i) = Some (no, q)" "round_result q = None" "alive y" for q
    using goroutine_moves [OF conc_exec_inv [OF assms(4) inv] that(3)] that(1,2) by (simp add: rounds_at_def)
  ultimately show ?thesis by blast
qed

fun at_start :: "round_at \<Rightarrow> bool" where
  "at_start (Some (no, Removing (EditTry ing))) \<longleftrightarrow> sint (AnnotationRemovalDelay (Spec no)) = 2"
| "at_start _ \<longleftrightarrow> False"

theorem interleaved_round_ends_witness:
  "\<exists>z y x no ing r as. conc_reach fake (=) z \<and> go_round (points z Informer) = Some (no, Removing (EditTry ing)) \<and>
     conc_exec fake (=) (replicate 22 (Go Informer)) z y \<and>
     conc_exec fake (=) as z x \<and> go_round (points x Informer) = Some (no, RoundDone r)"
proof -
  let ?as = "Event (ObjIngress example_ingress) # replicate 3 (Go Informer)"
  have "runs_into fake ?as (conc_start slow_cluster)
      (\<lambda>z. at_start (go_round (points z Informer)) \<and> runs_into fake (replicate 22 (Go Informer)) z (\<lambda>y. True))"
    by code_simp
  then obtain z where z: "conc_exec fake (=) ?as (conc_start slow_cluster) z" "at_start (go_round (points z Informer))"
    and more: "runs_into fake (replicate 22 (Go Informer)) z (\<lambda>y. True)" by (rule runs_intoE) blast
  obtain y where y: "conc_exec fake (=) (replicate 22 (Go Informer)) z y" using more by (rule runs_intoE)
  obtain no ing where at: "go_round (points z Informer) = Some (no, Removing (EditTry ing))"
    "sint (AnnotationRemovalDelay (Spec no)) = 2"
    using z(2) by (auto elim: at_start.elims)
  have reach: "conc_reach fake (=) z" using z(1) by (rule exec_reach)
  have "3 * nat (sint (AnnotationRemovalDelay (Spec no))) + 15 <
      length (filter (\<lambda>a. a = Go Informer) (replicate 22 (Go Informer)))"
    using at(2) by simp
  then show ?thesis
    using interleaved_round_ends [OF fake_clock_mono _ reach y at(1)] at reach y by fastforce
qed

fun defeated :: "round_at \<Rightarrow> cluster \<Rightarrow> bool" where
  "defeated (Some (no, Waiting ing (WaitSleep start (Some d)))) w \<longleftrightarrow>
     now fake w < d \<and>
     (case ings w (''shop'', ''web'') of
        Some i \<Rightarrow> isBackendHttpsAnnotations i \<and> isContainsAcmeChallenge i = Ret True
      | None \<Rightarrow> False)"
| "defeated _ w \<longleftrightarrow> False"

text \<open>
  C6. The lock of an Ingress does not cover the wait between the two edits. There is a schedule in
  which the audit, at the end of its own round, puts the HTTPS annotation back while the informer's
  handler is still waiting, before its deadline, for the challenge of the same Ingress, which is
  still there.
\<close>

theorem overlapping_round_defeats_wait:
  "\<exists>as z no ing start d i.
     conc_exec fake (=) as (conc_start slow_cluster) z \<and>
     go_round (points z Informer) = Some (no, Waiting ing (WaitSleep start (Some d))) \<and>
     now fake (world (shared z)) < d \<and>
     ings (world (shared z)) (''shop'', ''web'') = Some i \<and>
     isBackendHttpsAnnotations i \<and> has_challenge i"
proof -
  let ?as = "Tick # replicate 14 (Go Auditor) @ Event (ObjIngress example_ingress) #
     replicate 11 (Go Informer) @ replicate 8 (Go Auditor)"
  have "runs_into fake ?as (conc_start slow_cluster)
      (\<lambda>z. defeated (go_round (points z Informer)) (world (shared z)))" by code_simp
  then obtain z where z: "conc_exec fake (=) ?as (conc_start slow_cluster) z"
    "defeated (go_round (points z Informer)) (world (shared z))"
    by (rule runs_intoE)
  from z(2) obtain no ing start d i where
    "go_round (points z Informer) = Some (no, Waiting ing (WaitSleep start (Some d)))"
    "now fake (world (shared z)) < d" "ings (world (shared z)) (''shop'', ''web'') = Some i"
    "isBackendHttpsAnnotations i" "isContainsAcmeChallenge i = Ret True"
    by (auto elim!: defeated.elims split: option.splits)
  moreover from this(5) have "has_challenge i" using contains_scan.scan_Ret by blast
  ultimately show ?thesis using z(1) by blast
qed

text \<open>
  C32. The renewals counted never outrun the observations, under every interleaving: in every state
  that handlers, audits and changes of the cluster can reach, each counted renewal has an observed
  annotation update of its own, and each round that is between its observation and its count has
  another one, so that the steps of one goroutine cannot use up the observation of the other.
\<close>

theorem concurrent_counts_observed:
  assumes "conc_reach c R z"
  shows "CertificateRenewalsTotal (shared z) + (\<Sum>i\<in>UNIV. at_round uncounted 0 (go_round (points z i)))
     \<le> length (AnnotationUpdatesDuration (shared z))"
  using conc_reach_inv [OF assms] by (simp add: conc_inv_def rounds_at_def goroutine_UNIV)

definition quick_cluster :: cluster where
  "quick_cluster = slow_cluster\<lparr>solver := 0\<rparr>"

theorem concurrent_counts_observed_witness:
  "\<exists>z. conc_exec fake (=) (Event (ObjIngress example_ingress) # replicate 19 (Go Informer))
      (conc_start quick_cluster) z \<and> CertificateRenewalsTotal (shared z) = 1 \<and>
     1 \<le> length (AnnotationUpdatesDuration (shared z))"
proof -
  let ?as = "Event (ObjIngress example_ingress) # replicate 19 (Go Informer)"
  have "runs_into fake ?as (conc_start quick_cluster) (\<lambda>z. CertificateRenewalsTotal (shared z) = 1)"
    by code_simp
  then obtain z where z: "conc_exec fake (=) ?as (conc_start quick_cluster) z"
    "CertificateRenewalsTotal (shared z) = 1" by (rule runs_intoE)
  with concurrent_counts_observed [OF exec_reach [OF z(1)]] show ?thesis by auto
qed

end
