(* ===== verification/StepsAgree.thy ===== *)
theory StepsAgree
  imports OperatorSteps
begin

text \<open>
  The machines of \<open>OperatorSteps\<close> compute the functions of \<open>Annotations\<close>, \<open>Challenge\<close> and
  \<open>Renewal\<close>: a goroutine that is not interfered with ends where the function, run in one go, ends.
  This is what makes a handler of \<open>OperatorLoop\<close>, which runs to its end in one step, the
  undisturbed case of the interleaved operator.
\<close>

section \<open>The annotation operations\<close>

lemma edit_unlock_computes:
  "computes (edit_step refusal change c ctx)
     (case updated of Inl err \<Rightarrow> EditUnlock key (Some (ApiErr err)) ing2 | Inr ing3 \<Rightarrow> EditUnlock key None ing3)
     EditDone
     (bindP (unlockP key) (\<lambda>_. case updated of
        Inl err \<Rightarrow> ret (Some (ApiErr err), ing2) | Inr ing3 \<Rightarrow> ret (None, ing3)))"
  by (cases updated; simp only: sum.case; rule computes_unlock, rule edit_step.simps, rule computes_ret, rule refl)

lemma edit_computes:
  "computes (edit_step refusal change c ctx) (EditTry ing) EditDone
     (bindP (tryLockP (IngressKey ing)) (\<lambda>isLock.
        if isLock then
          bindP (call (getIngress c ctx (Namespace ing) (Name ing))) (\<lambda>got.
            case got of
              Inl err \<Rightarrow> ret (Some (ApiErr err), ing)
            | Inr ing1 \<Rightarrow>
                bindP (call (updateIngress c ctx (ing1\<lparr>Annotations := change (Annotations ing1)\<rparr>))) (\<lambda>updated.
                     bindP (unlockP (IngressKey ing)) (\<lambda>_.
                       case updated of
                         Inl err \<Rightarrow> ret (Some (ApiErr err), ing1\<lparr>Annotations := change (Annotations ing1)\<rparr>)
                       | Inr ing3 \<Rightarrow> ret (None, ing3))))
        else ret (Some (NewErr (refusal (IngressKey ing))), ing)))"
  apply (rule computes_tryLock, rule edit_step.simps, rule computes_if)
   apply (simp only: if_True)
   apply (rule computes_call, rule edit_step.simps, rule computes_sum)
    apply (simp add: computes_ret)
   apply (simp only: sum.case)
   apply (rule computes_call, rule edit_step.simps, rule edit_unlock_computes)
  apply (simp add: computes_ret)
  done

lemma remove_computes:
  "computes (remove_step c ctx) (EditTry ing) EditDone (removeHTTPSAnnotation c ctx ing)"
  unfolding removeHTTPSAnnotation_def Let_def remove_step_def by (rule edit_computes)

lemma add_computes:
  "computes (add_step c ctx) (EditTry ing) EditDone (addHTTPSAnnotation c ctx ing)"
  unfolding addHTTPSAnnotation_def Let_def add_step_def by (rule edit_computes)

section \<open>The waits\<close>

lemma wait_computes:
  "computes (wait_step c ctx timeout ns n) WaitStart WaitDone (waitForChallengeAbsence c ctx timeout ns n)"
proof (rule computesI)
  fix s r t
  let ?m = "wait_step c ctx timeout ns n"
  let ?start = "now c (world s)" and ?tctx = "withTimeout ctx (now c (world s)) timeout"
  assume run: "waitForChallengeAbsence c ctx timeout ns n s = Some (r, t)"
  have "computes ?m (WaitSelect ?start ?tctx) WaitDone (for_loop (absence_body c timeout ?start ?tctx ns n))"
  proof (rule computes_loop)
    fix u q v
    assume body: "absence_body c timeout ?start ?tctx ns n u = Inl (q, v)"
    show "runs ?m (WaitSelect ?start ?tctx) u (WaitDone q) v"
    proof (cases "ctxDone ?tctx (now c (world u))")
      case True
      with body show ?thesis by (intro runs_one) (simp add: absence_body_def)
    next
      case False
      then have "?m (WaitSelect ?start ?tctx) u = Some (WaitGet ?start ?tctx, u)" by simp
      moreover have "?m (WaitGet ?start ?tctx) u = Some (WaitDone q, v)"
        using body False by (auto simp: absence_body_def split: prod.splits sum.splits outcome.splits if_splits)
      ultimately show ?thesis by (blast intro: runs.intros)
    qed
  next
    fix u v
    assume body: "absence_body c timeout ?start ?tctx ns n u = Inr v"
    then have "?m (WaitSelect ?start ?tctx) u = Some (WaitGet ?start ?tctx, u)"
      by (simp add: absence_body_def split: if_splits)
    moreover obtain w where "?m (WaitGet ?start ?tctx) u = Some (WaitSleep ?start ?tctx, u\<lparr>world := w\<rparr>)"
      and "v = u\<lparr>world := sleep c second w\<rparr>"
      using body by (auto simp: absence_body_def split: prod.splits sum.splits outcome.splits if_splits)
    moreover have "?m (WaitSleep ?start ?tctx) (u\<lparr>world := w\<rparr>) =
        Some (WaitSelect ?start ?tctx, u\<lparr>world := sleep c second w\<rparr>)" for w by simp
    ultimately show "runs ?m (WaitSelect ?start ?tctx) u (WaitSelect ?start ?tctx) v"
      by (blast intro: runs.intros)
  qed
  moreover have "?m WaitStart s = Some (WaitSelect ?start ?tctx, s)" by simp
  ultimately show "runs ?m WaitStart s (WaitDone r) t"
    using run by (auto simp: waitForChallengeAbsence_def Let_def intro: runs_step dest: computesD)
qed

lemma acme_body_decides:
  "acme_body c v t ctx s =
     (case acme_decides (fst (selectWatch c v t ctx (world s))) of
        None \<Rightarrow> Inr (s\<lparr>world := snd (selectWatch c v t ctx (world s))\<rparr>)
      | Some r \<Rightarrow> Inl (r, s\<lparr>world := snd (selectWatch c v t ctx (world s))\<rparr>))"
  by (cases "fst (selectWatch c v t ctx (world s))")
     (auto simp: acme_body_def acme_decides_def split_beta Let_def split: obj.split outcome.split bool.split)

lemma acme_computes:
  "computes (acme_step c ctx ns n) AcmeOpen AcmeDone (waitForAcmeChallenge c ctx ns n)"
proof (rule computesI)
  fix s r t
  let ?m = "acme_step c ctx ns n"
  assume run: "waitForAcmeChallenge c ctx ns n s = Some (r, t)"
  obtain got w where watch: "watchIngresses c ctx ns n (world s) = (got, w)"
    by (cases "watchIngresses c ctx ns n (world s)")
  show "runs ?m AcmeOpen s (AcmeDone r) t"
  proof (cases got)
    case (Inl err)
    with watch run show ?thesis by (intro runs_one) (simp add: waitForAcmeChallenge_def)
  next
    case (Inr v)
    let ?t = "now c w + sint (10 * second)"
    have loop: "computes ?m (AcmeSelect v ?t) (AcmeStop v) (for_loop (acme_body c v ?t ctx))"
      by (rule computes_loop; rule runs_one)
         (auto simp: acme_body_decides split_beta split: option.splits)
    have "?m AcmeOpen s = Some (AcmeSelect v ?t, s\<lparr>world := w\<rparr>)" using watch Inr by simp
    moreover
    obtain u where "for_loop (acme_body c v ?t ctx) (s\<lparr>world := w\<rparr>) = Some (r, u)"
      and "t = u\<lparr>world := stopWatch c v (world u)\<rparr>"
      using run watch Inr by (auto simp: waitForAcmeChallenge_def Let_def split: option.splits)
    then have "runs ?m (AcmeSelect v ?t) (s\<lparr>world := w\<rparr>) (AcmeDone r) t"
      by (intro runs_trans [OF computesD [OF loop]] runs_one) auto
    ultimately show ?thesis by (rule runs_step)
  qed
qed

section \<open>Settings and one renewal\<close>

lemma settings_computes:
  "computes (settings_step c ctx) (SettingsGet ns) SettingsDone (getOrCreateNimbleOpti c ctx ns)"
  unfolding getOrCreateNimbleOpti_def
  apply (rule computes_call, rule settings_step.simps, rule computes_sum)
   apply (simp only: sum.case, rule computes_if, simp only: if_True)
    apply (rule computes_call, rule settings_step.simps, rule computes_sum)
     apply (simp_all add: computes_ret)
  done

lemma machine_results_stop:
  "results_stop (remove_step c ctx) edit_result" "results_stop (add_step c ctx) edit_result"
  "results_stop (wait_step c ctx d ns n) wait_result" "results_stop (acme_step c ctx ns n) acme_result"
  "results_stop (round_step c ctx no) round_result" "results_stop (settings_step c ctx) settings_result"
  "results_stop (process_step c ctx) process_result" "results_stop (expiry_step c ctx) expiry_result"
  "results_stop (audit_step c ctx) audit_result"
  by (auto simp: results_stop_def remove_step_def add_step_def elim: edit_result.elims wait_result.elims
      acme_result.elims round_result.elims settings_result.elims process_result.elims expiry_result.elims
      audit_result.elims)

lemma counting_computes:
  "computes (round_step c ctx adapter) (Counting successTime isRenew ing) RoundDone
     (bindP (if sint successTime \<le> sint (AnnotationRemovalDelay (Spec adapter) * second)
             then IncrementCertificateRenewals else ret ()) (\<lambda>_. ret (isRenew, None, ing)))"
  by (rule computesI, rule runs_one) (auto simp: IncrementCertificateRenewals_def split: if_splits)

lemma adding_computes:
  "computes (round_step c ctx adapter) (Adding successTime isRenew (EditTry ing)) RoundDone
     (bindP (addHTTPSAnnotation c ctx ing) (\<lambda>(err, ing2).
        case err of
          Some e \<Rightarrow> ret (isRenew, Some e, ing2)
        | None \<Rightarrow> bindP (if sint successTime \<le> sint (AnnotationRemovalDelay (Spec adapter) * second)
             then IncrementCertificateRenewals else ret ()) (\<lambda>_. ret (isRenew, None, ing2))))"
  apply (rule computes_frame [where wrap = "Adding successTime isRenew" and result = edit_result])
       apply (rule add_computes machine_results_stop edit_result.simps round_step.simps)+
   apply (simp only: added_def)
   apply (rule computes_prod, simp only: prod.case, rule computes_option, simp_all only: option.case)
    apply (rule counting_computes)
   apply (rule computes_ret, rule refl)
  done

lemma observing_computes:
  assumes "\<And>b. computes (round_step c ctx adapter) (Adding successTime b (EditTry ing)) RoundDone (F b)"
  shows "computes (round_step c ctx adapter) (Observing ing successTime) RoundDone
     (bindP (if successTime = AnnotationRemovalDelay (Spec adapter) * second * 2
             then bindP (RecordAnnotationUpdateDuration (seconds (AnnotationRemovalDelay (Spec adapter) * second)))
               (\<lambda>_. ret False)
             else bindP (RecordAnnotationUpdateDuration (seconds successTime)) (\<lambda>_. ret True)) F)"
  by (rule computes_via)
     (use assms in \<open>auto simp: RecordAnnotationUpdateDuration_def bindP_def ret_def Let_def split: if_splits\<close>)

lemma round_computes:
  "computes (round_step c ctx adapter) (Removing (EditTry ing)) RoundDone
     (startCertificateRenewal c ctx ing adapter)"
  unfolding startCertificateRenewal_def Let_def
  apply (rule computes_frame [where wrap = Removing and result = edit_result])
       apply (rule remove_computes machine_results_stop edit_result.simps round_step.simps)+
   apply (simp only: removed_def)
   apply (rule computes_prod, simp only: prod.case, rule computes_option, simp_all only: option.case)
    prefer 2 apply (rule computes_ret, rule refl)
   apply (rule computes_frame [where wrap = "Waiting _" and result = wait_result])
       apply (rule wait_computes machine_results_stop wait_result.simps round_step.simps)+
   apply (simp only: waited_def)
   apply (rule computes_prod, simp only: prod.case, rule computes_option, simp_all only: option.case)
    prefer 2 apply (rule computes_ret, rule refl)
   apply (rule observing_computes, rule adding_computes)
  done

section \<open>Processing, expiry, audit, handler\<close>

lemma process_round_computes:
  "computes (process_step c ctx) (ProcessRound adapter (Removing (EditTry ing))) ProcessDone
     (bindP (startCertificateRenewal c ctx ing adapter) (\<lambda>(isRenew, err, ing1).
        case err of Some e \<Rightarrow> ret (False, Some e, ing1) | None \<Rightarrow> ret (isRenew, None, ing1)))"
  apply (rule computes_frame [where wrap = "ProcessRound adapter" and result = round_result])
       apply (rule round_computes machine_results_stop round_result.simps process_step.simps)+
   apply (simp only: renewed_once_def)
   apply (rule computes_prod, simp only: prod.case, rule computes_prod, simp only: prod.case,
       rule computes_option)
    apply (simp_all add: computes_ret)
  done

lemma settled_computes:
  "computes (process_step c ctx) (settled ing got) ProcessDone
     (case got of
        Inl e \<Rightarrow> ret (False, Some e, ing)
      | Inr adapter \<Rightarrow>
          bindP (liftO (isContainsAcmeChallenge ing)) (\<lambda>found.
            if found then
              bindP (startCertificateRenewal c ctx ing adapter) (\<lambda>(isRenew, err, ing1).
                case err of
                  Some e \<Rightarrow> ret (False, Some e, ing1)
                | None \<Rightarrow> ret (isRenew, None, ing1))
            else ret (False, None, ing)))"
  apply (rule computes_sum)
   apply (simp add: settled_def computes_ret)
  apply (rule computes_liftO)
   apply (simp add: settled_def)
  apply (rule computes_if)
   apply (simp only: settled_def sum.case outcome.case if_True, rule process_round_computes)
  apply (simp add: settled_def computes_ret)
  done

lemma process_computes:
  "computes (process_step c ctx) (process_start ing) ProcessDone (processIngressForRenewal c ctx ing)"
  unfolding processIngressForRenewal_def process_start_def
  by (rule computes_frame [where wrap = "ProcessSettings ing" and result = settings_result])
     (rule settings_computes machine_results_stop settings_result.simps process_step.simps settled_computes refl)+

lemma expiry_computes:
  "computes (expiry_step c ctx) (ExpiryNext tls ing) ExpiryDone (renew_expiring c ctx tls ing)"
proof (induction tls arbitrary: ing)
  case Nil
  show ?case
    unfolding renew_expiring.simps by (rule computes_silent, rule expiry_step.simps, rule computes_ret, rule refl)
next
  case (Cons t tls)
  have round: "computes (expiry_step c ctx) (ExpiryRound adapter tls (Removing (EditTry ing))) ExpiryDone
     (bindP (startCertificateRenewal c ctx ing adapter) (\<lambda>(_, err, ing1). renew_expiring c ctx tls ing1))"
    for adapter
    apply (rule computes_frame [where wrap = "ExpiryRound adapter tls" and result = round_result])
         apply (rule round_computes machine_results_stop round_result.simps expiry_step.simps refl)+
     apply (auto simp: expiry_renewed_def Cons.IH split: prod.split)
    done
  have acme: "computes (expiry_step c ctx) (ExpiryAcme adapter tls ing AcmeOpen) ExpiryDone
     (bindP (waitForAcmeChallenge c ctx (Namespace ing) (Name ing)) (\<lambda>waited.
        case waited of
          Some e \<Rightarrow> ret (Some e, ing)
        | None \<Rightarrow> bindP (startCertificateRenewal c ctx ing adapter)
                    (\<lambda>(_, err, ing1). renew_expiring c ctx tls ing1)))"
    for adapter
    apply (rule computes_frame [where wrap = "ExpiryAcme adapter tls ing" and result = acme_result])
         apply (rule acme_computes machine_results_stop acme_result.simps expiry_step.simps refl)+
     apply (rule computes_option)
      apply (simp only: acme_seen_def option.case, rule round)
     apply (simp_all add: acme_seen_def computes_ret)
    done
  show ?case
    unfolding renew_expiring.simps
    apply (rule computes_call, rule expiry_step.simps, rule computes_sum)
     apply (simp add: computes_ret)
    apply (simp only: sum.case)
    apply (rule computes_sum)
     apply (simp add: computes_ret)
    apply (simp only: sum.case)
    apply (rule computes_now, rule expiry_step.simps)
    apply (simp only: Let_def)
    apply (rule computes_call, rule expiry_step.simps, rule computes_sum)
     apply (simp add: computes_ret)
    apply (simp only: sum.case)
    apply (rule computes_if)
     apply (simp only: if_True)
     apply (rule computes_call, rule expiry_step.simps, rule computes_option)
      apply (simp only: option.case, rule acme)
     apply (simp add: computes_ret)
    apply (simp only: if_False, rule Cons.IH)
    done
qed

lemma audit_items_compute:
  "computes (audit_step c ctx) (AuditNext items) AuditDone (audit_items c ctx items)"
proof (induction items)
  case Nil
  show ?case
    unfolding audit_items.simps by (rule computes_silent, rule audit_step.simps, rule computes_ret, rule refl)
next
  case (Cons ing items)
  have expiry: "computes (audit_step c ctx) (AuditExpiry items (ExpiryNext (TLS ing1) ing1)) AuditDone
     (bindP (renewValidCertificateIfNecessary c ctx ing1) (\<lambda>(err, ing2).
        case err of Some e \<Rightarrow> ret (Some e) | None \<Rightarrow> audit_items c ctx items))"
    for ing1
    unfolding renewValidCertificateIfNecessary_def
    apply (rule computes_frame [where wrap = "AuditExpiry items" and result = expiry_result])
         apply (rule expiry_computes machine_results_stop expiry_result.simps audit_step.simps refl)+
     apply (simp only: item_checked_def)
     apply (rule computes_prod, simp only: prod.case, rule computes_option)
      apply (simp_all only: option.case Cons.IH)
    apply (rule computes_ret, rule refl)
    done
  have process: "computes (audit_step c ctx) (AuditProcess items (process_start ing)) AuditDone
     (bindP (processIngressForRenewal c ctx ing) (\<lambda>(isRenew, err, ing1).
          case err of
            Some e \<Rightarrow> ret (Some e)
          | None \<Rightarrow>
              if \<not> isRenew then
                bindP (renewValidCertificateIfNecessary c ctx ing1) (\<lambda>(err, ing2).
                  case err of
                    Some e \<Rightarrow> ret (Some e)
                  | None \<Rightarrow> audit_items c ctx items)
              else audit_items c ctx items))"
    apply (rule computes_frame [where wrap = "AuditProcess items" and result = process_result])
         apply (rule process_computes machine_results_stop process_result.simps audit_step.simps refl)+
     apply (simp only: item_processed_def)
     apply (rule computes_prod, simp only: prod.case, rule computes_prod, simp only: prod.case,
         rule computes_option)
      apply (simp only: option.case, rule computes_if)
       apply (simp only: if_True not_False_eq_True, rule expiry)
      apply (simp only: if_False Cons.IH)
     apply (simp only: option.case, rule computes_ret, rule refl)
    apply (rule refl)
    done
  show ?case
    unfolding audit_items.simps
    by (rule computes_silent, rule audit_step.simps, rule computes_if)
       (simp_all only: if_True if_False simp_thms process Cons.IH)
qed

lemma audit_computes:
  "computes (audit_step c ctx) AuditList AuditDone (auditIngressResources c ctx)"
  unfolding auditIngressResources_def
  by (rule computes_call, rule audit_step.simps, rule computes_sum)
     (simp_all add: computes_ret audit_items_compute)

lemma handler_computes:
  "computes (handler_step c) (HandlerEvent ob) HandlerDone (addFunc c ob)"
proof (cases "metaNamespaceKey c ob")
  case (Inl err)
  then show ?thesis
    by (intro computesI runs_one) (auto simp: addFunc_def)
next
  case (Inr key)
  have process: "computes (handler_step c) (HandlerProcess (process_start ing)) HandlerDone
      (bindP (processIngressForRenewal c background ing) (\<lambda>_. ret ()))" for ing
    by (rule computes_frame [where wrap = HandlerProcess and result = process_result])
       (rule process_computes machine_results_stop process_result.simps handler_step.simps refl computes_ret)+
  have stop: "computes (handler_step c) (HandlerDone x) HandlerDone (\<lambda>u. Some (x, u))" for x
    by (auto intro!: computesI runs_refl)
  show ?thesis
  proof (rule computes_via)
    fix s r t
    assume run: "addFunc c ob s = Some (r, t)"
    show "\<exists>q u Q. handler_step c (HandlerEvent ob) s = Some (q, u) \<and>
        computes (handler_step c) q HandlerDone Q \<and> Q u = Some (r, t)"
    proof (cases "\<exists>ing. ob = ObjIngress ing \<and> \<not> IsLocked key (auditMutex s) \<and>
        isAdapterEnabledLabel ing \<and> isBackendHttpsAnnotations ing")
      case True
      then obtain ing where "handler_step c (HandlerEvent ob) s = Some (HandlerProcess (process_start ing), s)"
        and "bindP (processIngressForRenewal c background ing) (\<lambda>_. ret ()) s = Some (r, t)"
        using Inr run by (auto simp: addFunc_def handleIngressAdd_def)
      with process show ?thesis by blast
    next
      case False
      then have "\<exists>x. handler_step c (HandlerEvent ob) s = Some (HandlerDone x, s) \<and> r = x \<and> t = s"
        using Inr run by (cases ob) (auto simp: addFunc_def handleIngressAdd_def split: if_splits)
      with stop show ?thesis by blast
    qed
  qed
qed

section \<open>Properties\<close>

lemma alone_computes:
  assumes "computes m p done P" and "P s = Some (r, t)" and "m (done r) t = None"
  shows "run_alone m p s = Some (done r, t)"
  using run_alone_runs [OF computesD [OF assms(1,2)]] run_alone_end [of m "done r" t] assms(3) by simp

text \<open>
  C8. The operator's handlers, run step by step and alone, are the functions of the code: whenever the
  audit or the handler of an added object returns or panics, its machine ends with the same result in
  the same state. Under the laws of the clock and of watches, and from every state in which lock
  tokens agree with flags, they do return or panic, and the machines end.
\<close>

theorem operator_steps_agree:
  "(\<forall>r t. auditIngressResources c background s = Some (r, t) \<longrightarrow>
       run_alone (audit_step c background) AuditList s = Some (AuditDone r, t)) \<and>
   (\<forall>r t. addFunc c ob s = Some (r, t) \<longrightarrow>
       run_alone (handler_step c) (HandlerEvent ob) s = Some (HandlerDone r, t)) \<and>
   (clock_ok c \<longrightarrow> watch_ends c \<longrightarrow> op_inv s \<longrightarrow>
      (\<exists>r t. run_alone (audit_step c background) AuditList s = Some (AuditDone r, t)) \<and>
      (\<exists>r t. run_alone (handler_step c) (HandlerEvent ob) s = Some (HandlerDone r, t)))"
proof -
  have audit: "run_alone (audit_step c background) AuditList s = Some (AuditDone r, t)"
    if "auditIngressResources c background s = Some (r, t)" for r t
    using alone_computes [OF audit_computes that] by simp
  have handler: "run_alone (handler_step c) (HandlerEvent ob) s = Some (HandlerDone r, t)"
    if "addFunc c ob s = Some (r, t)" for r t
    using alone_computes [OF handler_computes that] by simp
  have "\<exists>r t. run_alone (audit_step c background) AuditList s = Some (AuditDone r, t)"
    and "\<exists>r t. run_alone (handler_step c) (HandlerEvent ob) s = Some (HandlerDone r, t)"
    if "clock_ok c" "watch_ends c" "op_inv s"
    using returns_onD [OF returns_audit [OF that(1,2)] that(3), of background] audit
      returns_onD [OF returns_addFunc [OF that(1)] that(3), of ob] handler by blast+
  with audit handler show ?thesis by blast
qed

theorem operator_steps_agree_witness:
  "\<exists>r t. addFunc fake (ObjIngress example_ingress) (operator_start small_cluster) = Some (r, t) \<and>
     run_alone (handler_step fake) (HandlerEvent (ObjIngress example_ingress)) (operator_start small_cluster) =
       Some (HandlerDone r, t)"
proof -
  have "op_inv (operator_start small_cluster)" by (simp add: op_inv_def)
  from returns_onD [OF returns_addFunc [OF fake_clock_ok] this] obtain r t where
    "addFunc fake (ObjIngress example_ingress) (operator_start small_cluster) = Some (r, t)" by blast
  with operator_steps_agree [of fake "operator_start small_cluster" "ObjIngress example_ingress"]
  show ?thesis by blast
qed

end
