(* ===== verification/OperatorMain.thy ===== *)
theory OperatorMain
  imports OperatorLoop
begin

text \<open>
  Parts of the operator's process that run around its handlers: the command line flags of
  \<open>cmd/main.go\<close>, the reconciler of \<open>nimbleopti_controller.go\<close>, and the goroutine of
  \<open>StartAudit\<close>. How the process is put together is in \<open>OperatorBoot\<close>.
\<close>

section \<open>Flags, reconciler, audit loop\<close>

text \<open>The flags, with the defaults of \<open>parseFlags\<close>.\<close>

record operator_flags =
  metricsAddr :: string
  probeAddr :: string
  enableLeaderElection :: bool

definition parseFlags :: "(string \<rightharpoonup> string) \<Rightarrow> bool option \<Rightarrow> operator_flags" where
  "parseFlags given leaderElect =
     \<lparr>metricsAddr = (case given ''metrics-bind-address'' of Some v \<Rightarrow> v | None \<Rightarrow> '':8080''),
      probeAddr = (case given ''health-probe-bind-address'' of Some v \<Rightarrow> v | None \<Rightarrow> '':8081''),
      enableLeaderElection = (case leaderElect of Some b \<Rightarrow> b | None \<Rightarrow> False)\<rparr>"

text \<open>The reconciler does nothing and asks for no second run.\<close>

record reconcile_result =
  Requeue :: bool
  RequeueAfter :: duration

definition Reconcile :: "'w client \<Rightarrow> ctx \<Rightarrow> string \<times> string \<Rightarrow>
    ('w operator, reconcile_result \<times> go_error option) prog" where
  "Reconcile c ctx req = ret (\<lparr>Requeue = False, RequeueAfter = 0\<rparr>, None)"

text \<open>
  \<open>StartAudit\<close>: the goroutine's loop over what its \<open>select\<close> has delivered so far. An error of an
  audit is logged and the loop goes on. The answer is whether the goroutine is still in its loop,
  waiting for the next delivery (True), or has returned on the closed channel (False).
\<close>

datatype audit_signal = TickerFired | StopClosed

fun StartAudit :: "'w client \<Rightarrow> audit_signal list \<Rightarrow> ('w operator, bool) prog" where
  "StartAudit c [] = ret True"
| "StartAudit c (StopClosed # rest) = ret False"
| "StartAudit c (TickerFired # rest) =
     bindP (auditIngressResources c background) (\<lambda>err.
       case err of
         Some e \<Rightarrow> StartAudit c rest
       | None \<Rightarrow> StartAudit c rest)"

section \<open>The audit loop keeps the invariant and returns\<close>

lemma StartAudit_keeps: "keeps op_inv (StartAudit c sigs)"
proof (induction c sigs rule: StartAudit.induct)
  case (3 c rest)
  then show ?case
    unfolding StartAudit.simps by (intro keeps_intros audit_keeps)
qed (simp_all only: StartAudit.simps keeps_ret)

lemma StartAudit_returns:
  "clock_ok c \<Longrightarrow> watch_ends c \<Longrightarrow> returns_on op_inv (StartAudit c sigs)"
proof (induction c sigs rule: StartAudit.induct)
  case (3 c rest)
  then show ?case
    unfolding StartAudit.simps by (intro returns_intros returns_audit)
qed (simp_all only: StartAudit.simps returns_ret)

section \<open>Properties\<close>

text \<open>
  C25. The daily audit survives its own failures: from a state of a reachable operator the loop
  works through any number of ticks, whatever errors the audits end with, unless one of them
  panics, and a closed stop channel ends it at once.
\<close>

theorem StartAudit_runs_on:
  assumes "clock_ok c" and "watch_ends c" and "op_inv s"
  shows "(\<exists>r s'. StartAudit c sigs s = Some (r, s') \<and> op_inv s' \<and> (\<forall>b. r = Ret b \<longrightarrow> b = (StopClosed \<notin> set sigs))) \<and>
     StartAudit c (StopClosed # sigs) s = Some (Ret False, s)"
proof -
  obtain r s' where run: "StartAudit c sigs s = Some (r, s')"
    using returns_onD [OF StartAudit_returns [OF assms(1,2)] assms(3)] by blast
  have "b = (StopClosed \<notin> set sigs)" if "StartAudit c sigs s = Some (Ret b, s')" for b
    using that
  proof (induction c sigs arbitrary: s rule: StartAudit.induct)
    case (3 c rest)
    then show ?case by (auto elim!: bindP_RetE split: option.splits)
  qed simp_all
  then show ?thesis using run keepsD [OF StartAudit_keeps assms(3) run] by auto
qed

theorem StartAudit_runs_on_witness:
  "\<exists>r s'. StartAudit fake [TickerFired, TickerFired] (operator_start small_cluster) = Some (r, s')"
  using StartAudit_runs_on [OF fake_clock_ok fake_watch_ends, of "operator_start small_cluster"
      "[TickerFired, TickerFired]"]
  by (auto simp: op_inv_def simp del: StartAudit.simps)

end
