(* ===== verification/OperatorBoot.thy ===== *)
theory OperatorBoot
  imports OperatorMain
begin

text \<open>
  How the operator is put together, in detail: the API group and its scheme builder
  (\<open>api/v1/groupversion_info.go\<close>, \<open>init\<close> of \<open>nimbleopti_types.go\<close>), the webhook and the controller
  that are registered with the manager, the watch client, \<open>NewIngressWatcher\<close> and \<open>main\<close>, with the
  values that go from one step to the next. What the libraries construct is a parameter, the record
  \<open>library\<close>; errors are values. The result is the list of the steps that were begun, in order,
  and the exit code of the process or the manager that was started.
\<close>

section \<open>Steps\<close>

datatype startup_step =
    ClientScheme | AdapterScheme | ParseFlags
  | RestConfig | NewManager | KubeClient
  | WatcherConfig | WatcherV1Scheme | WatcherClientScheme | WatcherClient | InformerRun | CacheSync
  | AuditLoop | SetupController | SetupWebhook | Healthz | Readyz | StartManager

text \<open>The flag package ends the process by itself, without an error code when help is asked for.\<close>

datatype flag_error = HelpRequested | BadFlag string

section \<open>The API group\<close>

record GroupVersion =
  Group :: string
  Version :: string

datatype api_type = NimbleOptiType | NimbleOptiListType

definition api_GroupVersion :: GroupVersion where
  "api_GroupVersion = \<lparr>Group = ''adapter.uri-tech.github.io'', Version = ''v1''\<rparr>"

section \<open>What the libraries do\<close>

text \<open>
  Types of the parameters: schemes \<open>'s\<close>, scheme builders \<open>'b\<close>, managers \<open>'m\<close>, their clients
  \<open>'c\<close>, the Kubernetes client \<open>'k\<close>, builders of controllers \<open>'cb\<close> and of webhooks \<open>'wb\<close>,
  configurations \<open>'f\<close>, informers \<open>'i\<close>, queues \<open>'q\<close>. A manager is changed by what is added to it,
  so these functions return it.
\<close>

record ('s, 'c, 'k, 'i, 'q) IngressWatcher =
  iw_Client :: 'k
  iw_IngressInformer :: "'i option"
  iw_ClientObj :: 'c
  iw_auditMutex :: nmutex
  iw_Queue :: 'q

record ('s, 'c, 'k, 'i, 'q) NimbleOptiReconciler =
  r_Client :: 'c
  r_Scheme :: 's
  r_KubernetesClient :: 'k
  r_IngressWatcher :: "('s, 'c, 'k, 'i, 'q) IngressWatcher"

record 's manager_options =
  o_Scheme :: 's
  o_MetricsBindAddress :: string
  o_Port :: nat
  o_HealthProbeBindAddress :: string
  o_LeaderElection :: bool
  o_LeaderElectionID :: string

record ('s, 'b, 'm, 'c, 'k, 'cb, 'wb, 'f, 'i, 'q) library =
  newScheme :: 's
  newBuilder :: "GroupVersion \<Rightarrow> 'b"
  registerTypes :: "'b \<Rightarrow> api_type list \<Rightarrow> 'b"
  builderAddTo :: "'b \<Rightarrow> 's \<Rightarrow> go_error option \<times> 's"
  clientgoAddTo :: "'s \<Rightarrow> go_error option \<times> 's"
  parseArgs :: "flag_error + (string \<rightharpoonup> string) \<times> bool option"
  restConfig :: "go_error option \<times> 'f"
  newManager :: "'f \<Rightarrow> 's manager_options \<Rightarrow> go_error option \<times> 'm"
  kubeForConfig :: "'m \<Rightarrow> go_error option \<times> 'k"
  getKubeConfig :: "go_error option \<times> 'f"
  newObjClient :: "'f \<Rightarrow> 's \<Rightarrow> go_error option \<times> 'c"
  newQueue :: "string \<Rightarrow> 'q"
  ingressInformer :: "'k \<Rightarrow> 'i"
  cacheSynced :: "'i \<Rightarrow> bool"
  managerClient :: "'m \<Rightarrow> 'c"
  managerScheme :: "'m \<Rightarrow> 's"
  newControllerManagedBy :: "'m \<Rightarrow> 'cb"
  controllerFor :: "'cb \<Rightarrow> api_type \<Rightarrow> 'cb"
  controllerComplete :: "'cb \<Rightarrow> ('s, 'c, 'k, 'i, 'q) NimbleOptiReconciler \<Rightarrow> go_error option \<times> 'm"
  newWebhookManagedBy :: "'m \<Rightarrow> 'wb"
  webhookFor :: "'wb \<Rightarrow> api_type \<Rightarrow> 'wb"
  webhookComplete :: "'wb \<Rightarrow> go_error option \<times> 'm"
  addHealthzCheck :: "string \<Rightarrow> 'm \<Rightarrow> go_error option \<times> 'm"
  addReadyzCheck :: "string \<Rightarrow> 'm \<Rightarrow> go_error option \<times> 'm"
  startManager :: "'m \<Rightarrow> go_error option"

section \<open>Schemes\<close>

text \<open>
  Package initialization makes the builder and then runs \<open>init\<close>, which registers the two types.
  \<open>AddToScheme\<close> is the method of the pointer \<open>SchemeBuilder\<close>, so it uses the builder as it is
  when it is called.
\<close>

definition SchemeBuilder :: "('s, 'b, 'm, 'c, 'k, 'cb, 'wb, 'f, 'i, 'q) library \<Rightarrow> 'b" where
  "SchemeBuilder L = newBuilder L api_GroupVersion"

definition api_init :: "('s, 'b, 'm, 'c, 'k, 'cb, 'wb, 'f, 'i, 'q) library \<Rightarrow> 'b \<Rightarrow> 'b" where
  "api_init L b = registerTypes L b [NimbleOptiType, NimbleOptiListType]"

definition AddToScheme ::
  "('s, 'b, 'm, 'c, 'k, 'cb, 'wb, 'f, 'i, 'q) library \<Rightarrow> 'b \<Rightarrow> 's \<Rightarrow> go_error option \<times> 's" where
  "AddToScheme L b s = builderAddTo L b s"

definition api_builder :: "('s, 'b, 'm, 'c, 'k, 'cb, 'wb, 'f, 'i, 'q) library \<Rightarrow> 'b" where
  "api_builder L = api_init L (SchemeBuilder L)"

section \<open>The controller and the webhook\<close>

definition SetupWithManager ::
  "('s, 'b, 'm, 'c, 'k, 'cb, 'wb, 'f, 'i, 'q) library \<Rightarrow> ('s, 'c, 'k, 'i, 'q) NimbleOptiReconciler \<Rightarrow>
   'm \<Rightarrow> go_error option \<times> 'm" where
  "SetupWithManager L r mgr =
     (let b = newControllerManagedBy L mgr;
          b = controllerFor L b NimbleOptiType
      in controllerComplete L b r)"

definition SetupWebhookWithManager ::
  "('s, 'b, 'm, 'c, 'k, 'cb, 'wb, 'f, 'i, 'q) library \<Rightarrow> 'm \<Rightarrow> go_error option \<times> 'm" where
  "SetupWebhookWithManager L mgr =
     webhookComplete L (webhookFor L (newWebhookManagedBy L mgr) NimbleOptiType)"

section \<open>The startup\<close>

text \<open>
  One step of the startup: it is recorded, a failure ends the process with the given code, and
  otherwise its value goes to the rest. The code is 2 where the program panics
  (\<open>utilruntime.Must\<close>, the client constructor that must not fail), 255 after klog's \<open>Fatalf\<close>,
  and 1 after \<open>os.Exit(1)\<close>.
\<close>

type_synonym 'r startup = "startup_step list \<times> (nat + 'r)"

definition attempt :: "startup_step \<Rightarrow> nat \<Rightarrow> go_error option \<times> 'a \<Rightarrow> ('a \<Rightarrow> 'r startup) \<Rightarrow> 'r startup" where
  "attempt st code res rest =
     (case res of
        (Some err, _) \<Rightarrow> ([st], Inl code)
      | (None, a) \<Rightarrow> (case rest a of (steps, r) \<Rightarrow> (st # steps, r)))"

text \<open>A step that cannot fail: it starts a goroutine.\<close>

definition launch :: "startup_step \<Rightarrow> 'r startup \<Rightarrow> 'r startup" where
  "launch st rest = (case rest of (steps, r) \<Rightarrow> (st # steps, r))"

text \<open>\<open>flag.Parse\<close>: it exits with 0 when help is asked for and with 2 on a bad flag.\<close>

definition parse_or_exit ::
  "('s, 'b, 'm, 'c, 'k, 'cb, 'wb, 'f, 'i, 'q) library \<Rightarrow> (operator_flags \<Rightarrow> 'r startup) \<Rightarrow> 'r startup" where
  "parse_or_exit L rest =
     (case parseArgs L of
        Inl HelpRequested \<Rightarrow> ([ParseFlags], Inl 0)
      | Inl (BadFlag _) \<Rightarrow> ([ParseFlags], Inl 2)
      | Inr (given, leaderElect) \<Rightarrow>
          (case rest (parseFlags given leaderElect) of (steps, r) \<Rightarrow> (ParseFlags # steps, r)))"

definition boot_NewIngressWatcher ::
  "('s, 'b, 'm, 'c, 'k, 'cb, 'wb, 'f, 'i, 'q) library \<Rightarrow> 'b \<Rightarrow> 'k \<Rightarrow>
   (('s, 'c, 'k, 'i, 'q) IngressWatcher \<Rightarrow> 'r startup) \<Rightarrow> 'r startup" where
  "boot_NewIngressWatcher L builder clientKube rest =
     attempt WatcherConfig 255 (getKubeConfig L) (\<lambda>cfg.
     attempt WatcherV1Scheme 255 (AddToScheme L builder (newScheme L)) (\<lambda>scheme.
     attempt WatcherClientScheme 255 (clientgoAddTo L scheme) (\<lambda>scheme.
     attempt WatcherClient 255 (newObjClient L cfg scheme) (\<lambda>cl.
     let iw = \<lparr>iw_Client = clientKube, iw_IngressInformer = None, iw_ClientObj = cl,
                iw_auditMutex = NewNamedMutex, iw_Queue = newQueue L ''IngressQueue''\<rparr>;
         informer = ingressInformer L clientKube;
         iw = iw\<lparr>iw_IngressInformer := Some informer\<rparr>
     in launch InformerRun
       (attempt CacheSync 1
          (if cacheSynced L informer then None else Some (NewErr ''failed to wait for caches to sync''), iw)
          rest)))))"

definition boot_init ::
  "('s, 'b, 'm, 'c, 'k, 'cb, 'wb, 'f, 'i, 'q) library \<Rightarrow> 'b \<Rightarrow> ('s \<Rightarrow> operator_flags \<Rightarrow> 'r startup) \<Rightarrow> 'r startup" where
  "boot_init L builder rest =
     attempt ClientScheme 2 (clientgoAddTo L (newScheme L)) (\<lambda>scheme.
     attempt AdapterScheme 2 (AddToScheme L builder scheme) (\<lambda>scheme.
     parse_or_exit L (rest scheme)))"

definition boot_main ::
  "('s, 'b, 'm, 'c, 'k, 'cb, 'wb, 'f, 'i, 'q) library \<Rightarrow> 'b \<Rightarrow> 's \<Rightarrow> operator_flags \<Rightarrow> 'm startup" where
  "boot_main L builder scheme flags =
     attempt RestConfig 1 (restConfig L) (\<lambda>cfg.
     attempt NewManager 1 (newManager L cfg
        \<lparr>o_Scheme = scheme, o_MetricsBindAddress = metricsAddr flags, o_Port = 9443,
         o_HealthProbeBindAddress = probeAddr flags, o_LeaderElection = enableLeaderElection flags,
         o_LeaderElectionID = ''8f24f142.uri-tech.github.io''\<rparr>) (\<lambda>mgr.
     attempt KubeClient 2 (kubeForConfig L mgr) (\<lambda>kubernetesClient.
     boot_NewIngressWatcher L builder kubernetesClient (\<lambda>ingressWatcher.
     launch AuditLoop (
     attempt SetupController 1 (SetupWithManager L
        \<lparr>r_Client = managerClient L mgr, r_Scheme = managerScheme L mgr,
         r_KubernetesClient = kubernetesClient, r_IngressWatcher = ingressWatcher\<rparr> mgr) (\<lambda>mgr.
     attempt SetupWebhook 1 (SetupWebhookWithManager L mgr) (\<lambda>mgr.
     attempt Healthz 1 (addHealthzCheck L ''healthz'' mgr) (\<lambda>mgr.
     attempt Readyz 1 (addReadyzCheck L ''readyz'' mgr) (\<lambda>mgr.
     attempt StartManager 1 (startManager L mgr, mgr) (\<lambda>mgr. ([], Inr mgr)))))))))))"

definition operator_boot :: "('s, 'b, 'm, 'c, 'k, 'cb, 'wb, 'f, 'i, 'q) library \<Rightarrow> 'm startup" where
  "operator_boot L = boot_init L (api_builder L) (boot_main L (api_builder L))"

section \<open>Where the startup stops\<close>

text \<open>What the library call of a step may answer, over all arguments it may be given.\<close>

definition answers ::
  "('s, 'b, 'm, 'c, 'k, 'cb, 'wb, 'f, 'i, 'q) library \<Rightarrow> startup_step \<Rightarrow> go_error option set" where
  "answers L st = (case st of
      ClientScheme \<Rightarrow> range (\<lambda>s. fst (clientgoAddTo L s))
    | AdapterScheme \<Rightarrow> range (\<lambda>(b, s). fst (builderAddTo L b s))
    | ParseFlags \<Rightarrow> {case parseArgs L of Inl _ \<Rightarrow> Some (NewErr ''flag'') | Inr _ \<Rightarrow> None}
    | RestConfig \<Rightarrow> {fst (restConfig L)}
    | NewManager \<Rightarrow> range (\<lambda>(cfg, opts). fst (newManager L cfg opts))
    | KubeClient \<Rightarrow> range (\<lambda>m. fst (kubeForConfig L m))
    | WatcherConfig \<Rightarrow> {fst (getKubeConfig L)}
    | WatcherV1Scheme \<Rightarrow> range (\<lambda>(b, s). fst (builderAddTo L b s))
    | WatcherClientScheme \<Rightarrow> range (\<lambda>s. fst (clientgoAddTo L s))
    | WatcherClient \<Rightarrow> range (\<lambda>(cfg, s). fst (newObjClient L cfg s))
    | InformerRun \<Rightarrow> {None}
    | CacheSync \<Rightarrow> range (\<lambda>i. if cacheSynced L i then None else Some (NewErr ''failed to wait for caches to sync''))
    | AuditLoop \<Rightarrow> {None}
    | SetupController \<Rightarrow> range (\<lambda>(b, r). fst (controllerComplete L b r))
    | SetupWebhook \<Rightarrow> range (\<lambda>b. fst (webhookComplete L b))
    | Healthz \<Rightarrow> range (\<lambda>m. fst (addHealthzCheck L ''healthz'' m))
    | Readyz \<Rightarrow> range (\<lambda>m. fst (addReadyzCheck L ''readyz'' m))
    | StartManager \<Rightarrow> range (startManager L))"

definition exit_code ::
  "('s, 'b, 'm, 'c, 'k, 'cb, 'wb, 'f, 'i, 'q) library \<Rightarrow> startup_step \<Rightarrow> nat" where
  "exit_code L st =
     (if st = ParseFlags then (if parseArgs L = Inl HelpRequested then 0 else 2)
      else if st \<in> {ClientScheme, AdapterScheme, KubeClient} then 2
      else if st \<in> {WatcherConfig, WatcherV1Scheme, WatcherClientScheme, WatcherClient} then 255
      else 1)"

text \<open>
  A startup that follows an order: it begins its steps in that order, it ends with a code only at a
  step whose call may fail, and it goes on after a step only when the call of the step may succeed.
\<close>

definition follows ::
  "('s, 'b, 'm, 'c, 'k, 'cb, 'wb, 'f, 'i, 'q) library \<Rightarrow> startup_step list \<Rightarrow> 'r startup \<Rightarrow> bool" where
  "follows L order res \<longleftrightarrow> (\<exists>later. fst res @ later = order \<and>
     (case snd res of
        Inl code \<Rightarrow> \<exists>pre st err. fst res = pre @ [st] \<and> Some err \<in> answers L st \<and>
          code = exit_code L st \<and> (\<forall>u \<in> set pre. None \<in> answers L u)
      | Inr _ \<Rightarrow> later = [] \<and> (\<forall>u \<in> set order. None \<in> answers L u)))"

lemma follows_done: "follows L [] ([], Inr m)"
  by (simp add: follows_def)

lemma follows_stop:
  "Some err \<in> answers L st \<Longrightarrow> follows L (st # order) ([st], Inl (exit_code L st))"
  by (auto simp: follows_def)

lemma follows_on:
  assumes "None \<in> answers L st" and "follows L order rest"
  shows "follows L (st # order) (case rest of (steps, r) \<Rightarrow> (st # steps, r))"
proof (cases "snd rest")
  case (Inl code)
  with assms obtain later pre u err where "fst rest @ later = order" "fst rest = pre @ [u]"
    "Some err \<in> answers L u" "code = exit_code L u" "\<forall>v \<in> set pre. None \<in> answers L v"
    by (auto simp: follows_def)
  with Inl assms(1) show ?thesis
    unfolding follows_def
    by (intro exI [of _ later]) (auto split: prod.split intro!: exI [of _ "st # pre"])
next
  case (Inr m)
  with assms show ?thesis by (auto simp: follows_def split: prod.split)
qed

lemma follows_attempt:
  assumes "fst res \<in> answers L st" and "code = exit_code L st" and "\<And>a. follows L order (rest a)"
  shows "follows L (st # order) (attempt st code res rest)"
proof (cases "fst res")
  case None
  with assms follows_on [of L st order "rest (snd res)"] show ?thesis
    by (auto simp: attempt_def split: prod.splits)
next
  case (Some err)
  with assms(1,2) follows_stop [of err L st order] show ?thesis
    by (auto simp: attempt_def split: prod.splits)
qed

lemma follows_launch:
  "None \<in> answers L st \<Longrightarrow> follows L order rest \<Longrightarrow> follows L (st # order) (launch st rest)"
  unfolding launch_def by (rule follows_on)

lemma follows_parse:
  assumes "\<And>flags. follows L order (rest flags)"
  shows "follows L (ParseFlags # order) (parse_or_exit L rest)"
proof (cases "parseArgs L")
  case (Inl e)
  then have "Some (NewErr ''flag'') \<in> answers L ParseFlags" by (simp add: answers_def)
  from follows_stop [OF this, of order] Inl show ?thesis
    by (cases e) (simp_all add: parse_or_exit_def exit_code_def)
next
  case (Inr x)
  then have "None \<in> answers L ParseFlags" by (simp add: answers_def)
  with follows_on [OF this assms] Inr show ?thesis by (cases x) (simp add: parse_or_exit_def)
qed

lemma answers_intros [simp]:
  "fst (clientgoAddTo L s) \<in> answers L ClientScheme"
  "fst (AddToScheme L b s) \<in> answers L AdapterScheme"
  "fst (restConfig L) \<in> answers L RestConfig"
  "fst (newManager L cfg opts) \<in> answers L NewManager"
  "fst (kubeForConfig L m) \<in> answers L KubeClient"
  "fst (getKubeConfig L) \<in> answers L WatcherConfig"
  "fst (AddToScheme L b s) \<in> answers L WatcherV1Scheme"
  "fst (clientgoAddTo L s) \<in> answers L WatcherClientScheme"
  "fst (newObjClient L cfg s) \<in> answers L WatcherClient"
  "None \<in> answers L InformerRun"
  "(if cacheSynced L i then None else Some (NewErr ''failed to wait for caches to sync'')) \<in> answers L CacheSync"
  "None \<in> answers L AuditLoop"
  "fst (SetupWithManager L r m) \<in> answers L SetupController"
  "fst (SetupWebhookWithManager L m) \<in> answers L SetupWebhook"
  "fst (addHealthzCheck L ''healthz'' m) \<in> answers L Healthz"
  "fst (addReadyzCheck L ''readyz'' m) \<in> answers L Readyz"
  "startManager L m \<in> answers L StartManager"
  by (force simp: answers_def AddToScheme_def SetupWithManager_def SetupWebhookWithManager_def Let_def
      intro: range_eqI)+

lemma follows_watcher:
  assumes "\<And>iw. follows L order (rest iw)"
  shows "follows L ([WatcherConfig, WatcherV1Scheme, WatcherClientScheme, WatcherClient, InformerRun, CacheSync] @ order)
    (boot_NewIngressWatcher L builder k rest)"
  using assms unfolding boot_NewIngressWatcher_def Let_def append_Cons append_Nil
  by (intro follows_attempt follows_launch) (simp_all only: answers_intros fst_conv, simp_all add: exit_code_def)

lemma follows_main:
  "follows L ([RestConfig, NewManager, KubeClient] @
     [WatcherConfig, WatcherV1Scheme, WatcherClientScheme, WatcherClient, InformerRun, CacheSync] @
     [AuditLoop, SetupController, SetupWebhook, Healthz, Readyz, StartManager])
    (boot_main L builder scheme flags)"
  unfolding boot_main_def append_Cons append_Nil
  using follows_watcher [unfolded append_Cons append_Nil]
  by (intro follows_attempt follows_launch follows_done follows_watcher [unfolded append_Cons append_Nil])
     (simp_all add: exit_code_def)

lemma follows_boot:
  "follows L [ClientScheme, AdapterScheme, ParseFlags, RestConfig, NewManager, KubeClient, WatcherConfig,
      WatcherV1Scheme, WatcherClientScheme, WatcherClient, InformerRun, CacheSync, AuditLoop,
      SetupController, SetupWebhook, Healthz, Readyz, StartManager] (operator_boot L)"
  unfolding operator_boot_def boot_init_def
  by (intro follows_attempt follows_parse follows_main [unfolded append_Cons append_Nil])
     (simp_all add: exit_code_def)

section \<open>What a started process consists of\<close>

lemma attempt_InrE:
  assumes "attempt st code res rest = (ds, Inr r)"
  obtains a ds' where "res = (None, a)" and "rest a = (ds', Inr r)"
  using assms by (auto simp: attempt_def split: prod.splits option.splits)

lemma parse_InrE:
  assumes "parse_or_exit L rest = (ds, Inr r)"
  obtains given leader ds' where "parseArgs L = Inr (given, leader)" and "rest (parseFlags given leader) = (ds', Inr r)"
  using assms by (auto simp: parse_or_exit_def split: sum.splits flag_error.splits prod.splits)

lemma launch_InrE:
  assumes "launch st rest = (ds, Inr r)"
  obtains ds' where "rest = (ds', Inr r)"
  using assms by (auto simp: launch_def split: prod.splits)

text \<open>
  The documented behaviour of schemes: adding a builder without an error makes the types that are
  registered with it known under its group and version, adding client-go's makes the core types
  known, and neither takes away what was known.
\<close>

definition scheme_laws ::
  "('s, 'b, 'm, 'c, 'k, 'cb, 'wb, 'f, 'i, 'q) library \<Rightarrow> ('s \<Rightarrow> GroupVersion \<Rightarrow> api_type \<Rightarrow> bool) \<Rightarrow>
   ('s \<Rightarrow> bool) \<Rightarrow> bool" where
  "scheme_laws L knows core \<longleftrightarrow>
     (\<forall>gv ts s s'. builderAddTo L (registerTypes L (newBuilder L gv) ts) s = (None, s') \<longrightarrow>
        (\<forall>t \<in> set ts. knows s' gv t) \<and> (core s \<longrightarrow> core s')) \<and>
     (\<forall>s s'. clientgoAddTo L s = (None, s') \<longrightarrow> core s' \<and> (\<forall>gv t. knows s gv t \<longrightarrow> knows s' gv t))"

definition complete_scheme ::
  "('s \<Rightarrow> GroupVersion \<Rightarrow> api_type \<Rightarrow> bool) \<Rightarrow> ('s \<Rightarrow> bool) \<Rightarrow> 's \<Rightarrow> bool" where
  "complete_scheme knows core s \<longleftrightarrow>
     knows s api_GroupVersion NimbleOptiType \<and> knows s api_GroupVersion NimbleOptiListType \<and> core s"

lemma AddToScheme_knows:
  assumes "scheme_laws L knows core" and "AddToScheme L (api_builder L) s = (None, s')"
  shows "knows s' api_GroupVersion NimbleOptiType" "knows s' api_GroupVersion NimbleOptiListType"
    and "core s \<Longrightarrow> core s'"
  using assms by (auto simp: scheme_laws_def AddToScheme_def api_builder_def api_init_def SchemeBuilder_def)

lemma clientgo_knows:
  assumes "scheme_laws L knows core" and "clientgoAddTo L s = (None, s')"
  shows "core s'" "knows s gv t \<Longrightarrow> knows s' gv t"
  using assms by (auto simp: scheme_laws_def)

text \<open>The watcher: one mutex without names, a client with a complete scheme, a synchronized informer.\<close>

definition watcher_ready ::
  "('s, 'b, 'm, 'c, 'k, 'cb, 'wb, 'f, 'i, 'q) library \<Rightarrow> ('s \<Rightarrow> bool) \<Rightarrow> 'k \<Rightarrow>
   ('s, 'c, 'k, 'i, 'q) IngressWatcher \<Rightarrow> bool" where
  "watcher_ready L good k iw \<longleftrightarrow>
     iw_Client iw = k \<and> iw_auditMutex iw = NewNamedMutex \<and>
     (\<exists>cfg s. good s \<and> newObjClient L cfg s = (None, iw_ClientObj iw)) \<and>
     (\<exists>i. iw_IngressInformer iw = Some i \<and> i = ingressInformer L k \<and> cacheSynced L i)"

lemma boot_watcher_ready:
  assumes laws: "scheme_laws L knows core"
    and boot: "boot_NewIngressWatcher L (api_builder L) k rest = (ds, Inr m)"
  obtains iw ds' where "watcher_ready L (complete_scheme knows core) k iw" and "rest iw = (ds', Inr m)"
proof -
  from boot obtain cfg s1 s2 cl ds' where
    v1: "AddToScheme L (api_builder L) (newScheme L) = (None, s1)" and core: "clientgoAddTo L s1 = (None, s2)"
    and cl: "newObjClient L cfg s2 = (None, cl)" and sync: "cacheSynced L (ingressInformer L k)"
    and rest: "rest \<lparr>iw_Client = k, iw_IngressInformer = Some (ingressInformer L k), iw_ClientObj = cl,
       iw_auditMutex = NewNamedMutex, iw_Queue = newQueue L ''IngressQueue''\<rparr> = (ds', Inr m)"
    unfolding boot_NewIngressWatcher_def Let_def
    by (auto elim!: attempt_InrE launch_InrE split: if_splits)
  have "complete_scheme knows core s2"
    using AddToScheme_knows [OF laws v1] clientgo_knows [OF laws core] by (auto simp: complete_scheme_def)
  then have "watcher_ready L (complete_scheme knows core) k \<lparr>iw_Client = k,
     iw_IngressInformer = Some (ingressInformer L k), iw_ClientObj = cl,
     iw_auditMutex = NewNamedMutex, iw_Queue = newQueue L ''IngressQueue''\<rparr>"
    using cl sync by (auto simp: watcher_ready_def)
  from that [OF this rest] show ?thesis .
qed

section \<open>Properties\<close>

text \<open>
  C26. Where the startup stops. The steps are begun in the order of the code. When the process exits,
  it is at the last step that was begun, whose call may fail, with the exit code of that failure, and
  every step before it could succeed; when the manager is started, all steps were gone through. So a
  step whose call fails whatever it is given is the last one, and the manager is not started; in
  particular no failure is passed over.
\<close>

theorem startup_stops_at_first_failure:
  assumes "operator_boot L = (steps, result)"
  shows "\<exists>later. steps @ later =
     [ClientScheme, AdapterScheme, ParseFlags, RestConfig, NewManager, KubeClient, WatcherConfig,
      WatcherV1Scheme, WatcherClientScheme, WatcherClient, InformerRun, CacheSync, AuditLoop,
      SetupController, SetupWebhook, Healthz, Readyz, StartManager] \<and>
     (case result of
        Inl code \<Rightarrow> (\<exists>err. Some err \<in> answers L (last steps)) \<and>
          code = (if last steps = ParseFlags then (if parseArgs L = Inl HelpRequested then 0 else 2)
             else if last steps \<in> {ClientScheme, AdapterScheme, KubeClient} then 2
             else if last steps \<in> {WatcherConfig, WatcherV1Scheme, WatcherClientScheme, WatcherClient}
             then 255 else 1)
      | Inr mgr \<Rightarrow> later = []) \<and>
     (\<forall>st. None \<notin> answers L st \<longrightarrow> (\<exists>code. result = Inl code) \<and> (st \<in> set steps \<longrightarrow> st = last steps))"
proof -
  let ?order = "[ClientScheme, AdapterScheme, ParseFlags, RestConfig, NewManager, KubeClient, WatcherConfig,
      WatcherV1Scheme, WatcherClientScheme, WatcherClient, InformerRun, CacheSync, AuditLoop,
      SetupController, SetupWebhook, Healthz, Readyz, StartManager]"
  from follows_boot [of L] assms obtain later where order: "steps @ later = ?order"
    and ends: "case result of
        Inl code \<Rightarrow> \<exists>pre st err. steps = pre @ [st] \<and> Some err \<in> answers L st \<and>
          code = exit_code L st \<and> (\<forall>u \<in> set pre. None \<in> answers L u)
      | Inr _ \<Rightarrow> later = [] \<and> (\<forall>u \<in> set ?order. None \<in> answers L u)"
    by (auto simp only: follows_def fst_conv snd_conv)
  show ?thesis
  proof (cases result)
    case (Inl code)
    with ends obtain pre st err where "steps = pre @ [st]" "Some err \<in> answers L st" "code = exit_code L st"
      "\<forall>u \<in> set pre. None \<in> answers L u" by auto
    with Inl order show ?thesis by (intro exI [of _ later]) (auto simp: exit_code_def)
  next
    case (Inr mgr)
    with ends have "later = []" and all: "\<forall>u \<in> set ?order. None \<in> answers L u" by simp_all
    moreover have "None \<in> answers L st" for st using all by (cases st) simp_all
    ultimately show ?thesis using Inr order by auto
  qed
qed

text \<open>
  C33. A manager that is started has everything: it was made with a scheme that knows both types of
  the API group and the core types, and it went in order through the registration of a reconciler
  whose watcher has an unused mutex, a synchronized informer and a client with such a scheme, then
  of the webhook, and of the two health checks.
\<close>

theorem running_operator_is_complete:
  assumes "scheme_laws L knows core" and "operator_boot L = (steps, Inr mgr)"
  shows "\<exists>scheme given leader flags cfg m0 m1 m2 m3 k iw.
     complete_scheme knows core scheme \<and>
     parseArgs L = Inr (given, leader) \<and> flags = parseFlags given leader \<and> restConfig L = (None, cfg) \<and>
     newManager L cfg \<lparr>o_Scheme = scheme, o_MetricsBindAddress = metricsAddr flags, o_Port = 9443,
       o_HealthProbeBindAddress = probeAddr flags, o_LeaderElection = enableLeaderElection flags,
       o_LeaderElectionID = ''8f24f142.uri-tech.github.io''\<rparr> = (None, m0) \<and>
     watcher_ready L (complete_scheme knows core) k iw \<and>
     SetupWithManager L \<lparr>r_Client = managerClient L m0, r_Scheme = managerScheme L m0,
       r_KubernetesClient = k, r_IngressWatcher = iw\<rparr> m0 = (None, m1) \<and>
     SetupWebhookWithManager L m1 = (None, m2) \<and>
     addHealthzCheck L ''healthz'' m2 = (None, m3) \<and> addReadyzCheck L ''readyz'' m3 = (None, mgr) \<and>
     startManager L mgr = None"
proof -
  from assms(2) obtain s1 s2 given leader ds where core: "clientgoAddTo L (newScheme L) = (None, s1)"
    and v1: "AddToScheme L (api_builder L) s1 = (None, s2)"
    and args: "parseArgs L = Inr (given, leader)"
    and main: "boot_main L (api_builder L) s2 (parseFlags given leader) = (ds, Inr mgr)"
    unfolding operator_boot_def boot_init_def by (auto elim!: attempt_InrE parse_InrE)
  have good: "complete_scheme knows core s2"
    using AddToScheme_knows [OF assms(1) v1] clientgo_knows(1) [OF assms(1) core]
    by (auto simp: complete_scheme_def)
  from main show ?thesis
    unfolding boot_main_def
    apply (elim attempt_InrE boot_watcher_ready [OF assms(1)] launch_InrE)
    apply (elim Pair_inject)
    apply (simp (no_asm_use) only: sum.inject)
    apply (intro exI conjI)
              apply (rule good, rule args, rule refl)
            apply assumption+
     apply simp_all
    done
qed

text \<open>A library whose schemes are lists of what they know and whose managers are lists of what was added.\<close>

definition log_library :: "((GroupVersion \<times> api_type) list \<times> bool, GroupVersion \<times> api_type list,
    string list, unit, unit, string list, string list, unit, unit, string) library" where
  "log_library = \<lparr>newScheme = ([], False), newBuilder = (\<lambda>gv. (gv, [])),
     registerTypes = (\<lambda>(gv, ts) us. (gv, ts @ us)),
     builderAddTo = (\<lambda>(gv, ts) (known, core). (None, (known @ map (Pair gv) ts, core))),
     clientgoAddTo = (\<lambda>(known, core). (None, (known, True))),
     parseArgs = Inr (Map.empty, None), restConfig = (None, ()), newManager = (\<lambda>cfg opts. (None, [o_MetricsBindAddress opts])),
     kubeForConfig = (\<lambda>m. (None, ())), getKubeConfig = (None, ()), newObjClient = (\<lambda>cfg s. (None, ())),
     newQueue = id, ingressInformer = id, cacheSynced = (\<lambda>i. True), managerClient = (\<lambda>m. ()),
     managerScheme = (\<lambda>m. ([], False)), newControllerManagedBy = id,
     controllerFor = (\<lambda>b t. b @ [''for'']), controllerComplete = (\<lambda>b r. (None, b @ [''controller''])),
     newWebhookManagedBy = id, webhookFor = (\<lambda>b t. b), webhookComplete = (\<lambda>b. (None, b @ [''webhook''])),
     addHealthzCheck = (\<lambda>n m. (None, m @ [n])), addReadyzCheck = (\<lambda>n m. (None, m @ [n])),
     startManager = (\<lambda>m. None)\<rparr>"

lemma log_library_laws: "scheme_laws log_library (\<lambda>s gv t. (gv, t) \<in> set (fst s)) snd"
  by (auto simp: scheme_laws_def log_library_def)

lemma log_library_boot:
  "snd (operator_boot log_library) =
     Inr ['':8080'', ''for'', ''controller'', ''webhook'', ''healthz'', ''readyz'']"
  by code_simp

theorem running_operator_is_complete_witness:
  "\<exists>m0 m1. newManager log_library () \<lparr>o_Scheme = m0, o_MetricsBindAddress = '':8080'', o_Port = 9443,
       o_HealthProbeBindAddress = '':8081'', o_LeaderElection = False,
       o_LeaderElectionID = ''8f24f142.uri-tech.github.io''\<rparr> = (None, m1) \<and>
     (api_GroupVersion, NimbleOptiType) \<in> set (fst m0)"
proof -
  have "operator_boot log_library = (fst (operator_boot log_library),
      Inr ['':8080'', ''for'', ''controller'', ''webhook'', ''healthz'', ''readyz''])"
    by (subst log_library_boot [symmetric]) simp
  from running_operator_is_complete [OF log_library_laws this]
  show ?thesis by (auto simp: complete_scheme_def log_library_def parseFlags_def)
qed

text \<open>The same library when the webhook cannot be registered: the audit loop is already running then.\<close>

definition no_webhook :: "((GroupVersion \<times> api_type) list \<times> bool, GroupVersion \<times> api_type list,
    string list, unit, unit, string list, string list, unit, unit, string) library" where
  "no_webhook = log_library\<lparr>webhookComplete := (\<lambda>b. (Some (NewErr ''no certificates''), b))\<rparr>"

lemma no_webhook_boot:
  "operator_boot no_webhook =
     ([ClientScheme, AdapterScheme, ParseFlags, RestConfig, NewManager, KubeClient, WatcherConfig,
       WatcherV1Scheme, WatcherClientScheme, WatcherClient, InformerRun, CacheSync, AuditLoop,
       SetupController, SetupWebhook], Inl 1)"
  by (simp add: operator_boot_def boot_init_def boot_main_def boot_NewIngressWatcher_def attempt_def launch_def
      parse_or_exit_def Let_def api_builder_def api_init_def SchemeBuilder_def AddToScheme_def
      SetupWithManager_def SetupWebhookWithManager_def no_webhook_def log_library_def)

theorem startup_stops_at_first_failure_witness:
  "operator_boot no_webhook =
     ([ClientScheme, AdapterScheme, ParseFlags, RestConfig, NewManager, KubeClient, WatcherConfig,
       WatcherV1Scheme, WatcherClientScheme, WatcherClient, InformerRun, CacheSync, AuditLoop,
       SetupController, SetupWebhook], Inl 1) \<and>
   None \<notin> answers no_webhook SetupWebhook \<and> (\<exists>err. Some err \<in> answers no_webhook SetupWebhook)"
proof -
  have "None \<notin> answers no_webhook SetupWebhook" by (auto simp: answers_def no_webhook_def)
  with startup_stops_at_first_failure [OF no_webhook_boot] no_webhook_boot show ?thesis by auto
qed

end
