(* ===== verification/Deletions.thy ===== *)
theory Deletions
  imports OperatorLoop
begin

text \<open>
  Which secrets the operator deletes. The calls of an environment are written down by
  \<open>recording\<close>: every certificate secret that is read, with the time of the answer, every
  \<open>NimbleOpti\<close> that is read, and every secret that is deleted, the latest first. The calls themselves,
  their answers and their effects are those of the environment. In such a log a deletion is justified
  by the events just before it.
\<close>

section \<open>The log\<close>

datatype api_event =
    SecretRead string string "string \<rightharpoonup> string" time
  | SettingsRead string string NimbleOpti
  | SecretDeleted string string

type_synonym 'w recorded = "'w \<times> api_event list"

text \<open>A call that is written down only when it is answered, and then as the event of its answer.\<close>

definition noted :: "('a \<Rightarrow> 'w \<Rightarrow> api_event list) \<Rightarrow> ('w \<Rightarrow> 'a \<times> 'w) \<Rightarrow> 'w recorded \<Rightarrow> 'a \<times> 'w recorded" where
  "noted ev f x = (case f (fst x) of (a, w) \<Rightarrow> (a, (w, ev a w @ snd x)))"

definition unlogged :: "('w \<Rightarrow> 'a \<times> 'w) \<Rightarrow> 'w recorded \<Rightarrow> 'a \<times> 'w recorded" where
  "unlogged f = noted (\<lambda>_ _. []) f"

definition recording :: "'w client \<Rightarrow> 'w recorded client" where
  "recording c = \<lparr>
     now = (\<lambda>x. now c (fst x)),
     sleep = (\<lambda>d x. (sleep c d (fst x), snd x)),
     getIngress = (\<lambda>ctx ns n. unlogged (getIngress c ctx ns n)),
     updateIngress = (\<lambda>ctx i. unlogged (updateIngress c ctx i)),
     listIngresses = (\<lambda>ctx. unlogged (listIngresses c ctx)),
     getSecretData = (\<lambda>ctx ns n. noted (\<lambda>a w. case a of Inl _ \<Rightarrow> []
        | Inr data \<Rightarrow> [SecretRead ns n data (now c w)]) (getSecretData c ctx ns n)),
     deleteSecret = (\<lambda>ctx ns n. noted (\<lambda>a _. case a of Some _ \<Rightarrow> []
        | None \<Rightarrow> [SecretDeleted ns n]) (deleteSecret c ctx ns n)),
     getNimbleOpti = (\<lambda>ctx ns n. noted (\<lambda>a _. case a of Inl _ \<Rightarrow> []
        | Inr no \<Rightarrow> [SettingsRead ns n no]) (getNimbleOpti c ctx ns n)),
     createNimbleOpti = (\<lambda>ctx no. unlogged (createNimbleOpti c ctx no)),
     watchIngresses = (\<lambda>ctx ns n. unlogged (watchIngresses c ctx ns n)),
     selectWatch = (\<lambda>h t ctx. unlogged (selectWatch c h t ctx)),
     stopWatch = (\<lambda>h x. (stopWatch c h (fst x), snd x)),
     metaNamespaceKey = metaNamespaceKey c,
     pemDecode = pemDecode c,
     parseCertificate = parseCertificate c\<rparr>"

lemma recording_simps [simp]:
  "now (recording c) x = now c (fst x)"
  "sleep (recording c) d x = (sleep c d (fst x), snd x)"
  "getIngress (recording c) ctx ns n = unlogged (getIngress c ctx ns n)"
  "updateIngress (recording c) ctx i = unlogged (updateIngress c ctx i)"
  "listIngresses (recording c) ctx = unlogged (listIngresses c ctx)"
  "createNimbleOpti (recording c) ctx no = unlogged (createNimbleOpti c ctx no)"
  "watchIngresses (recording c) ctx ns n = unlogged (watchIngresses c ctx ns n)"
  "selectWatch (recording c) h t ctx = unlogged (selectWatch c h t ctx)"
  "stopWatch (recording c) h x = (stopWatch c h (fst x), snd x)"
  "getSecretData (recording c) ctx ns n = noted (\<lambda>a w. case a of Inl _ \<Rightarrow> []
     | Inr data \<Rightarrow> [SecretRead ns n data (now c w)]) (getSecretData c ctx ns n)"
  "deleteSecret (recording c) ctx ns n = noted (\<lambda>a _. case a of Some _ \<Rightarrow> []
     | None \<Rightarrow> [SecretDeleted ns n]) (deleteSecret c ctx ns n)"
  "getNimbleOpti (recording c) ctx ns n = noted (\<lambda>a _. case a of Inl _ \<Rightarrow> []
     | Inr no \<Rightarrow> [SettingsRead ns n no]) (getNimbleOpti c ctx ns n)"
  "pemDecode (recording c) = pemDecode c" "parseCertificate (recording c) = parseCertificate c"
  by (simp_all add: recording_def)

lemma recording_certificate [simp]: "certificateNotAfter (recording c) data = certificateNotAfter c data"
  by (auto simp: certificateNotAfter_def split: option.split)

section \<open>Justified deletions\<close>

text \<open>
  The event of a deletion comes directly after the settings of its namespace, and these directly
  after the secret, whose certificate was then within the threshold of the settings.
\<close>

definition due_before :: "'w client \<Rightarrow> string \<Rightarrow> string \<Rightarrow> api_event list \<Rightarrow> bool" where
  "due_before c ns n evs \<longleftrightarrow>
     (\<exists>no data t notAfter rest. evs = SettingsRead ns ns no # SecretRead ns n data t # rest \<and>
        certificateNotAfter c data = Inr notAfter \<and>
        within_threshold (time_sub notAfter t) (CertificateRenewalThreshold (Spec no)))"

definition justified :: "'w client \<Rightarrow> api_event list \<Rightarrow> bool" where
  "justified c evs \<longleftrightarrow>
     (\<forall>newer ns n older. evs = newer @ SecretDeleted ns n # older \<longrightarrow> due_before c ns n older)"

definition all_due :: "'w client \<Rightarrow> ('w recorded, 'x) base_scheme \<Rightarrow> bool" where
  "all_due c s \<longleftrightarrow> justified c (snd (world s))"

lemma justified_Nil [simp]: "justified c []"
  by (simp add: justified_def)

lemma justified_Cons [simp]:
  "justified c (e # evs) \<longleftrightarrow>
     (case e of SecretDeleted ns n \<Rightarrow> due_before c ns n evs | _ \<Rightarrow> True) \<and> justified c evs"
  unfolding justified_def by (auto simp: Cons_eq_append_conv split: api_event.splits)

lemma all_due_world [simp]: "all_due c (s\<lparr>world := (w, evs)\<rparr>) \<longleftrightarrow> justified c evs"
  by (simp add: all_due_def)

lemma all_due_mutex [simp]: "all_due c (s\<lparr>auditMutex := m\<rparr>) \<longleftrightarrow> all_due c s"
  by (simp add: all_due_def)

section \<open>The calls that delete nothing\<close>

lemma due_unlogged: "keeps (all_due c) (call (unlogged f))"
  by (rule keepsI) (auto elim!: call_SomeE simp: unlogged_def noted_def all_due_def split: prod.splits)

lemma due_settings_call:
  "keeps (all_due c) (call (noted (\<lambda>a _. case a of Inl _ \<Rightarrow> [] | Inr no \<Rightarrow> [SettingsRead ns n no]) f))"
  by (rule keepsI) (auto elim!: call_SomeE simp: noted_def all_due_def split: prod.splits sum.splits)

lemma due_locks: "keeps (all_due c) (tryLockP k)" "keeps (all_due c) (unlockP k)"
  by (rule keepsI; auto simp: tryLockP_def unlockP_def split: prod.splits option.splits)+

lemma due_metrics:
  "keeps (all_due c) (RecordAnnotationUpdateDuration d)" "keeps (all_due c) IncrementCertificateRenewals"
  by (rule keepsI; auto simp: RecordAnnotationUpdateDuration_def IncrementCertificateRenewals_def all_due_def)+

lemmas due_calls = due_unlogged due_settings_call due_locks due_metrics

lemma due_annotations:
  "keeps (all_due c) (removeHTTPSAnnotation (recording c) ctx ing)"
  "keeps (all_due c) (addHTTPSAnnotation (recording c) ctx ing)"
  unfolding removeHTTPSAnnotation_def addHTTPSAnnotation_def recording_simps
  by (intro keeps_intros due_calls)+

lemma due_absence_step:
  assumes "all_due c s"
  shows "absence_body (recording c) timeout start tctx ns n s = Inl (r, s') \<Longrightarrow> all_due c s'"
    and "absence_body (recording c) timeout start tctx ns n s = Inr s' \<Longrightarrow> all_due c s'"
  using assms
  by (auto simp: absence_body_def unlogged_def noted_def all_due_def
      split: if_splits sum.splits prod.splits outcome.splits bool.splits)

lemma due_absence_wait: "keeps (all_due c) (waitForChallengeAbsence (recording c) ctx timeout ns n)"
proof (rule keepsI)
  fix s r s'
  assume due: "all_due c s" and "waitForChallengeAbsence (recording c) ctx timeout ns n s = Some (r, s')"
  then have "for_loop (absence_body (recording c) timeout (now c (fst (world s)))
      (withTimeout ctx (now c (fst (world s))) timeout) ns n) s = Some (r, s')"
    by (simp add: waitForChallengeAbsence_def Let_def)
  then show "all_due c s'" using due by (rule for_loop_keeps) (rule due_absence_step; assumption)+
qed

lemma due_acme_step:
  assumes "all_due c s"
  shows "acme_body (recording c) h t ctx s = Inl (r, s') \<Longrightarrow> all_due c s'"
    and "acme_body (recording c) h t ctx s = Inr s' \<Longrightarrow> all_due c s'"
  using assms
  by (auto simp: acme_body_def unlogged_def noted_def all_due_def Let_def
      split: if_splits prod.splits select_event.splits obj.splits outcome.splits bool.splits)

lemma due_acme_wait: "keeps (all_due c) (waitForAcmeChallenge (recording c) ctx ns n)"
proof (rule keepsI)
  fix s :: "('a recorded, 'b) base_scheme" and r s'
  assume due: "all_due c s" and run: "waitForAcmeChallenge (recording c) ctx ns n s = Some (r, s')"
  obtain got w where open_watch: "watchIngresses (recording c) ctx ns n (world s) = (got, w)"
    by (cases "watchIngresses (recording c) ctx ns n (world s)")
  with due have due': "all_due c (s\<lparr>world := w\<rparr>)"
    by (auto simp: unlogged_def noted_def all_due_def split: prod.splits)
  show "all_due c s'"
  proof (cases got)
    case (Inl err)
    with run open_watch due' show ?thesis by (simp add: waitForAcmeChallenge_def)
  next
    case (Inr h)
    with run open_watch obtain t s1
      where loop: "for_loop (acme_body (recording c) h t ctx) (s\<lparr>world := w\<rparr>) = Some (r, s1)"
        and s': "s' = s1\<lparr>world := stopWatch (recording c) h (world s1)\<rparr>"
      by (auto simp: waitForAcmeChallenge_def Let_def split: option.splits)
    from loop due' have "all_due c s1" by (rule for_loop_keeps) (rule due_acme_step; assumption)+
    with s' show ?thesis by (simp add: all_due_def)
  qed
qed

lemma due_renewal: "keeps (all_due c) (startCertificateRenewal (recording c) ctx ing adapter)"
  unfolding startCertificateRenewal_def
  by (intro keeps_intros due_calls due_annotations due_absence_wait)

lemma due_process: "keeps (all_due c) (processIngressForRenewal (recording c) ctx ing)"
  unfolding processIngressForRenewal_def getOrCreateNimbleOpti_def recording_simps
  by (intro keeps_intros due_calls due_renewal)

section \<open>The renewal of certificates about to expire\<close>

lemma due_expiring: "keeps (all_due c) (renew_expiring (recording c) ctx tls ing)"
proof (induction tls arbitrary: ing)
  case Nil
  show ?case unfolding renew_expiring.simps by (rule keeps_ret)
next
  case (Cons t rest)
  let ?c = "recording c" and ?ns = "Namespace ing" and ?n = "SecretName t"
  define after where "after = (\<lambda>adapter. bindP (waitForAcmeChallenge ?c ctx ?ns (Name ing)) (\<lambda>waited.
     case waited of
       Some e \<Rightarrow> ret (Some e, ing)
     | None \<Rightarrow> bindP (startCertificateRenewal ?c ctx ing adapter)
         (\<lambda>(_, err, ing1). renew_expiring ?c ctx rest ing1)))"
  have after: "keeps (all_due c) (after adapter)" for adapter
    unfolding after_def by (intro keeps_intros due_acme_wait due_renewal Cons.IH)
  show ?case
  proof (rule keepsI)
    fix s r s'
    assume due: "all_due c s" and run: "renew_expiring ?c ctx (t # rest) ing s = Some (r, s')"
    obtain w evs where s: "world s = (w, evs)" by (cases "world s")
    with due have evs: "justified c evs" by (simp add: all_due_def)
    obtain got w1 where secret: "getSecretData c ctx ?ns ?n w = (got, w1)" by fastforce
    show "all_due c s'"
    proof (cases got)
      case (Inl e)
      with run s secret evs show ?thesis by (auto simp: noted_def)
    next
      case (Inr data)
      let ?evs = "SecretRead ?ns ?n data (now c w1) # evs"
      obtain set w2 where settings: "getNimbleOpti c ctx ?ns ?ns w1 = (set, w2)" by fastforce
      obtain del w3 where deletion: "deleteSecret c ctx ?ns ?n w2 = (del, w3)" by fastforce
      have certificate: "certificateNotAfter ?c data = certificateNotAfter c data" by simp
      note steps = run s secret Inr evs settings deletion certificate
      show ?thesis
      proof (cases "certificateNotAfter c data")
        case (Inl e)
        with steps show ?thesis by (auto simp: noted_def)
      next
        case notAfter: (Inr notAfter)
        show ?thesis
        proof (cases set)
          case (Inl e)
          with steps notAfter show ?thesis by (auto simp: noted_def)
        next
          case no: (Inr no)
          let ?evs2 = "SettingsRead ?ns ?ns no # ?evs"
          show ?thesis
          proof (cases "within_threshold (time_sub notAfter (now c w1)) (CertificateRenewalThreshold (Spec no))")
            case False
            with steps notAfter no
            have "renew_expiring ?c ctx rest ing (s\<lparr>world := (w2, ?evs2)\<rparr>) = Some (r, s')"
              by (simp add: noted_def)
            from keepsD [OF Cons.IH _ this] evs show ?thesis by simp
          next
            case True
            then have before: "due_before c ?ns ?n ?evs2" using notAfter by (auto simp: due_before_def)
            show ?thesis
            proof (cases del)
              case (Some e)
              with steps notAfter no True show ?thesis by (auto simp: noted_def)
            next
              case None
              with steps notAfter no True
              have "after no (s\<lparr>world := (w3, SecretDeleted ?ns ?n # ?evs2)\<rparr>) = Some (r, s')"
                by (simp add: noted_def after_def)
              from keepsD [OF after _ this] evs before show ?thesis by simp
            qed
          qed
        qed
      qed
    qed
  qed
qed

lemma due_items: "keeps (all_due c) (audit_items (recording c) ctx items)"
proof (induction items)
  case (Cons ing items)
  then show ?case
    unfolding audit_items.simps renewValidCertificateIfNecessary_def
    by (intro keeps_intros due_process due_expiring)
next
  case Nil
  show ?case unfolding audit_items.simps by (rule keeps_ret)
qed

lemma due_audit: "keeps (all_due c) (auditIngressResources (recording c) ctx)"
  unfolding auditIngressResources_def recording_simps by (intro keeps_intros due_unlogged due_items)

section \<open>Properties\<close>

text \<open>
  C29. Every secret an audit deletes was due: directly before the deletion the audit read the
  settings of the secret's namespace, and directly before that the secret itself, and the remaining
  time of its certificate, at the moment the secret was read, was within the threshold of these settings.
\<close>

theorem deleted_secrets_were_due:
  assumes "auditIngressResources (recording c) ctx s = Some (r, s')"
    and "snd (world s) = []"
    and "snd (world s') = newer @ SecretDeleted ns n # older"
  shows "\<exists>no data t notAfter rest. older = SettingsRead ns ns no # SecretRead ns n data t # rest \<and>
     certificateNotAfter c data = Inr notAfter \<and>
     within_threshold (time_sub notAfter t) (CertificateRenewalThreshold (Spec no))"
proof -
  have "all_due c s" using assms(2) by (simp add: all_due_def)
  from keepsD [OF due_audit this assms(1)] have "justified c (snd (world s'))" by (simp add: all_due_def)
  with assms(3) have "due_before c ns n older" by (simp add: justified_def)
  then show ?thesis by (simp add: due_before_def)
qed

text \<open>An audit that finds a certificate of ten days, with a threshold of thirty, and deletes its secret.\<close>

definition expiring_cluster :: cluster where
  "expiring_cluster = small_cluster\<lparr>solver := 0,
     optis := Map.empty((''shop'', ''shop'') \<mapsto> ten_seconds)\<rparr>"

lemma expiring_audit_run:
  "\<exists>r s' older. auditIngressResources (recording fake) background (operator_start (expiring_cluster, [])) =
      Some (r, s') \<and> snd (world s') = SecretDeleted ''shop'' ''web-tls'' # older"
proof -
  let ?i = "example_ingress\<lparr>Rules := Some []\<rparr>"
  let ?w = "tick expiring_cluster"
  have eligible: "isAdapterEnabledLabel ?i" "isBackendHttpsAnnotations ?i"
    by (simp_all add: isAdapterEnabledLabel_def isBackendHttpsAnnotations_def annotations_of_def example_ingress_def)
  have list: "listIngresses (recording fake) background (expiring_cluster, []) = (Inr [?i], (?w, []))"
    by (simp add: unlogged_def noted_def fake_simps List.map_filter_def expiring_cluster_def)
  have process: "processIngressForRenewal (recording fake) background ?i (operator_start (?w, [])) =
      Some (Ret (False, None, ?i), operator_start (tick ?w, [SettingsRead ''shop'' ''shop'' ten_seconds]))"
    by (simp add: processIngressForRenewal_def getOrCreateNimbleOpti_def isContainsAcmeChallenge_def noted_def
        fake_simps expiring_cluster_def bindP_assoc operator_start_def) (simp add: example_ingress_def)
  have certificate: "certificateNotAfter fake [''tls.crt'' \<mapsto> ''0123456789''] = Inr 864000000000000"
    by (simp add: certificateNotAfter_def contains_def fake_def)
  have due: "within_threshold (time_sub 864000000000000 3000000) 30"
    by (simp add: within_threshold_def time_sub_def hour_def)
  have tls: "TLS ?i = [\<lparr>Hosts = ''web.example'', SecretName = ''web-tls''\<rparr>]"
    "Namespace ?i = ''shop''" "Name ?i = ''web''"
    by (simp_all add: example_ingress_def)
  have "\<exists>r s' older. renew_expiring (recording fake) background (TLS ?i) ?i
      (operator_start (tick ?w, [SettingsRead ''shop'' ''shop'' ten_seconds])) =
      Some (r, s') \<and> snd (world s') = SecretDeleted ''shop'' ''web-tls'' # older"
    unfolding tls using certificate due
    by (simp add: tls noted_def unlogged_def fake_simps expiring_cluster_def operator_start_def ten_seconds_def
      waitForAcmeChallenge_def acme_body_def for_loop_exit Let_def second_def)
  then obtain r s' older where "renew_expiring (recording fake) background (TLS ?i) ?i
      (operator_start (tick ?w, [SettingsRead ''shop'' ''shop'' ten_seconds])) = Some (r, s')"
    "snd (world s') = SecretDeleted ''shop'' ''web-tls'' # older" by blast
  moreover have "operator_start v\<lparr>world := w\<rparr> = operator_start w" for v w :: "cluster recorded"
    by (simp add: operator_start_def)
  ultimately show ?thesis
    using list process eligible
    by (cases r) (auto simp: auditIngressResources_def renewValidCertificateIfNecessary_def split: option.splits)
qed

theorem deleted_secrets_were_due_witness:
  "\<exists>r s' no data t notAfter rest.
     auditIngressResources (recording fake) background (operator_start (expiring_cluster, [])) = Some (r, s') \<and>
     snd (world s') = SecretDeleted ''shop'' ''web-tls'' # SettingsRead ''shop'' ''shop'' no #
       SecretRead ''shop'' ''web-tls'' data t # rest \<and>
     certificateNotAfter fake data = Inr notAfter \<and>
     within_threshold (time_sub notAfter t) (CertificateRenewalThreshold (Spec no))"
proof -
  obtain r s' older where
    run: "auditIngressResources (recording fake) background (operator_start (expiring_cluster, [])) = Some (r, s')"
    and deleted: "snd (world s') = [] @ SecretDeleted ''shop'' ''web-tls'' # older"
    using expiring_audit_run by auto
  from deleted_secrets_were_due [OF run _ deleted] run deleted show ?thesis by force
qed

end
