(* ===== verification/WatchClient.thy ===== *)
theory WatchClient
  imports Challenge
begin

text \<open>
  \<open>RealKubernetesClient\<close> of both programs: the watch client that \<open>waitForAcmeChallenge\<close> uses in
  production. The two functions of the client library that it calls are parameters: the options that
  select a single object, and the watch on the Ingress objects of a namespace.
\<close>

section \<open>The clients\<close>

record ('o, 'w) RealKubernetesClient =
  singleObject :: "string \<Rightarrow> 'o"
  networkWatch :: "string \<Rightarrow> ctx \<Rightarrow> 'o \<Rightarrow> 'w \<Rightarrow> (api_error + watcher) \<times> 'w"

definition RealKubernetesClient_Watch ::
  "('o, 'w) RealKubernetesClient \<Rightarrow> ctx \<Rightarrow> string \<Rightarrow> string \<Rightarrow> 'w \<Rightarrow> (api_error + watcher) \<times> 'w" where
  "RealKubernetesClient_Watch r ctx namespace ingressName w =
     (let opts = singleObject r ingressName in networkWatch r namespace ctx opts w)"

definition cron_RealKubernetesClient_Watch ::
  "('o, 'w) RealKubernetesClient \<Rightarrow> ctx \<Rightarrow> string \<Rightarrow> string \<Rightarrow> 'w \<Rightarrow> (api_error + watcher) \<times> 'w" where
  "cron_RealKubernetesClient_Watch r ctx namespace ingressName w =
     (let opts = singleObject r ingressName in networkWatch r namespace ctx opts w)"

text \<open>The environment in which watches are opened through such a client.\<close>

definition with_watch_client :: "('o, 'w) RealKubernetesClient \<Rightarrow> 'w client \<Rightarrow> 'w client" where
  "with_watch_client r c = c\<lparr>watchIngresses := RealKubernetesClient_Watch r\<rparr>"

lemma with_watch_client_simps [simp]:
  "watchIngresses (with_watch_client r c) = RealKubernetesClient_Watch r"
  "selectWatch (with_watch_client r c) = selectWatch c"
  "now (with_watch_client r c) = now c"
  by (simp_all add: with_watch_client_def)

text \<open>
  The documented behaviour of a watch on a single object: it is attached to that object, stays
  attached while events are taken from it, and delivers events of that object only.
\<close>

definition watches_one_object ::
  "('o, 'w) RealKubernetesClient \<Rightarrow> 'w client \<Rightarrow> ('w \<Rightarrow> watcher \<Rightarrow> (string \<times> string) option) \<Rightarrow> bool" where
  "watches_one_object r c target \<longleftrightarrow>
     (\<forall>ns ctx n w h w'. networkWatch r ns ctx (singleObject r n) w = (Inr h, w') \<longrightarrow> target w' h = Some (ns, n)) \<and>
     (\<forall>h t ctx w e w' key. selectWatch c h t ctx w = (e, w') \<longrightarrow> target w h = Some key \<longrightarrow>
        target w' h = Some key \<and>
        (\<forall>ty i. e = WatchEvent ty (ObjIngress i) \<longrightarrow> (Namespace i, Name i) = key))"

lemma attached_step:
  assumes "watches_one_object r c target" and "target w h = Some key" and "selectWatch c h t ctx w = (e, w')"
  shows "target w' h = Some key" "e = WatchEvent ty (ObjIngress i) \<Longrightarrow> (Namespace i, Name i) = key"
  using assms unfolding watches_one_object_def by blast+

lemma attached_stays:
  assumes "watches_one_object r c target" and "target w h = Some key"
  shows "target ((deliver c h t ctx ^^ i) w) h = Some key"
proof (induction i)
  case (Suc i)
  let ?v = "(deliver c h t ctx ^^ i) w"
  obtain e w' where "selectWatch c h t ctx ?v = (e, w')" by (cases "selectWatch c h t ctx ?v")
  moreover from this have "deliver c h t ctx ?v = w'" by (simp add: deliver_def)
  ultimately show ?case using attached_step(1) [OF assms(1) Suc] by simp
qed (use assms(2) in simp)

lemma attached_events:
  assumes "watches_one_object r c target" and "target w h = Some (ns, n)"
    and "event_at c h t ctx w i = WatchEvent ty (ObjIngress ing)"
  shows "Namespace ing = ns" "Name ing = n"
proof -
  let ?v = "(deliver c h t ctx ^^ i) w"
  obtain w' where "selectWatch c h t ctx ?v = (WatchEvent ty (ObjIngress ing), w')"
    using assms(3) by (cases "selectWatch c h t ctx ?v") (simp add: event_at_def)
  from attached_step(2) [OF assms(1) attached_stays [OF assms(1,2)] this refl]
  have "(Namespace ing, Name ing) = (ns, n)" .
  then show "Namespace ing = ns" "Name ing = n" by simp_all
qed

lemma verdict_success:
  assumes "acme_verdict e = Some (Ret None)"
  obtains ty ing where "e = WatchEvent ty (ObjIngress ing)" and "ty = Added \<or> ty = Modified"
    and "has_challenge ing"
  using assms first_decisive_Ret
  by (auto simp: acme_verdict_def has_challenge_def split: select_event.splits if_splits obj.splits outcome.splits bool.splits)

section \<open>Properties\<close>

text \<open>
  C37. In production the wait for the challenge reports success only because of the Ingress it was
  asked about: among the events of the watch there is an addition or modification of an Ingress
  with that namespace and that name that has a challenge path.
\<close>

theorem acme_success_is_about_named_ingress:
  assumes one: "watches_one_object r c target"
    and wait: "waitForAcmeChallenge (with_watch_client r c) ctx ns name s = Some (Ret None, s')"
  shows "\<exists>h w t i ty ing. RealKubernetesClient_Watch r ctx ns name (world s) = (Inr h, w) \<and>
     event_at c h t ctx w i = WatchEvent ty (ObjIngress ing) \<and> ty \<in> {Added, Modified} \<and>
     Namespace ing = ns \<and> Name ing = name \<and> has_challenge ing"
proof -
  let ?c = "with_watch_client r c"
  obtain got w where open_watch: "watchIngresses ?c ctx ns name (world s) = (got, w)"
    by (cases "watchIngresses ?c ctx ns name (world s)")
  with wait obtain h where h: "got = Inr h" by (cases got) (auto simp: waitForAcmeChallenge_def)
  let ?t = "now ?c w + 10000000000"
  from waitForAcmeChallenge_iff [OF open_watch [unfolded h] refl] wait
  obtain i where "acme_verdict (event_at ?c h ?t ctx w i) = Some (Ret None)" by metis
  moreover have "deliver ?c h ?t ctx = deliver c h ?t ctx" by (simp add: deliver_def fun_eq_iff)
  then have "event_at ?c h ?t ctx w i = event_at c h ?t ctx w i" by (simp add: event_at_def)
  ultimately obtain ty ing where event: "event_at c h ?t ctx w i = WatchEvent ty (ObjIngress ing)"
    and "ty = Added \<or> ty = Modified" "has_challenge ing" by (metis verdict_success)
  moreover have "target w h = Some (ns, name)"
    using one open_watch h by (simp add: watches_one_object_def RealKubernetesClient_Watch_def)
  note attached_events [OF one this event]
  ultimately show ?thesis using open_watch h by auto
qed

text \<open>A cluster that filters the events of its script by the object the last watch asked for.\<close>

definition filtering :: "cluster client" where
  "filtering = fake\<lparr>selectWatch := (\<lambda>h t ctx w.
     case next_event t ctx w of
       (WatchEvent ty (ObjIngress i), w') \<Rightarrow>
         (if listed w = [(Namespace i, Name i)] then WatchEvent ty (ObjIngress i) else WatchEvent Bookmark ObjOther, w')
     | r \<Rightarrow> r)\<rparr>"

definition filtering_client :: "(string, cluster) RealKubernetesClient" where
  "filtering_client = \<lparr>singleObject = id, networkWatch = (\<lambda>ns ctx n w. (Inr 0, w\<lparr>listed := [(ns, n)]\<rparr>))\<rparr>"

lemma filtering_watches_one:
  "watches_one_object filtering_client filtering
     (\<lambda>w h. case listed w of [k] \<Rightarrow> Some k | _ \<Rightarrow> None)"
  by (auto simp: watches_one_object_def filtering_client_def filtering_def next_event_def tick_def
      split: list.splits select_event.splits obj.splits if_splits)

definition two_modified :: "cluster base" where
  "two_modified = start_state\<lparr>world := small_cluster\<lparr>script :=
     [WatchEvent Modified (ObjIngress (example_ingress\<lparr>Name := ''api''\<rparr>)),
      WatchEvent Modified (ObjIngress example_ingress)]\<rparr>\<rparr>"

lemma two_modified_run:
  "\<exists>s'. waitForAcmeChallenge (with_watch_client filtering_client filtering) background ''shop'' ''web'' two_modified =
     Some (Ret None, s')"
proof -
  let ?c = "with_watch_client filtering_client filtering"
  let ?w = "(world two_modified)\<lparr>listed := [(''shop'', ''web'')]\<rparr>"
  let ?t = "now ?c ?w + 10000000000"
  have watch: "watchIngresses ?c background ''shop'' ''web'' (world two_modified) = (Inr 0, ?w)"
    by (simp add: RealKubernetesClient_Watch_def filtering_client_def)
  have "acme_verdict (event_at ?c 0 ?t background ?w 0) = None"
    by (simp add: event_at_def two_modified_def filtering_def fake_simps example_ingress_def acme_verdict_def)
  moreover have "acme_verdict (event_at ?c 0 ?t background ?w 1) = Some (Ret None)"
    using example_scan
    by (simp add: event_at_def deliver_def two_modified_def filtering_def fake_simps acme_verdict_def
        example_ingress_def)
  ultimately show ?thesis
    unfolding waitForAcmeChallenge_iff [OF watch refl] by (intro exI [of _ 1] exI conjI) auto
qed

theorem acme_success_is_about_named_ingress_witness:
  "\<exists>w t i ty ing. event_at filtering 0 t background w i = WatchEvent ty (ObjIngress ing) \<and>
     Name ing = ''web'' \<and> has_challenge ing"
proof -
  obtain s' where "waitForAcmeChallenge (with_watch_client filtering_client filtering) background
      ''shop'' ''web'' two_modified = Some (Ret None, s')"
    using two_modified_run by blast
  from acme_success_is_about_named_ingress [OF filtering_watches_one this]
  show ?thesis by (simp add: RealKubernetesClient_Watch_def filtering_client_def) blast
qed

end
