(* ===== verification/Settings.thy ===== *)
theory Settings
  imports Renewal
begin

text \<open>
  The validation markers of \<open>NimbleOptiSpec\<close>, and what they give the operator: the settings it
  creates satisfy them, so that it only ever works with valid settings and its delays are not
  negative.
\<close>

text \<open>\<open>MinLength=1\<close> on the namespace, \<open>Minimum=1\<close> on the threshold and the delay.\<close>

definition spec_valid :: "NimbleOptiSpec \<Rightarrow> bool" where
  "spec_valid sp \<longleftrightarrow> 1 \<le> length (TargetNamespace sp) \<and>
     1 \<le> sint (CertificateRenewalThreshold sp) \<and> 1 \<le> sint (AnnotationRemovalDelay sp)"

text \<open>
  The documented behaviour of the API server: settings that it has are valid, and it stores what it
  is sent when that is valid.
\<close>

definition server_validates :: "'w client \<Rightarrow> bool" where
  "server_validates c \<longleftrightarrow>
     (\<forall>ctx ns n w no w'. getNimbleOpti c ctx ns n w = (Inr no, w') \<longrightarrow> spec_valid (Spec no)) \<and>
     (\<forall>ctx no w no' w'. createNimbleOpti c ctx no w = (Inr no', w') \<longrightarrow> Spec no' = Spec no)"

lemma delay_positive:
  assumes "1 \<le> sint (d :: i64)" and "sint d \<le> 9223372036"
  shows "0 < sint (d * second)"
  using sint_mult_64 [of d second] assms by simp

text \<open>
  With a server that validates, the settings that the operator finds or creates for a namespace
  are valid; and for delays of up to 9223372036 seconds the timeout of a renewal is then positive.
\<close>

theorem settings_are_valid:
  assumes "server_validates c" and "ns \<noteq> []"
    and "getOrCreateNimbleOpti c ctx ns s = Some (Ret (Inr adapter), s')"
  shows "spec_valid (Spec adapter) \<and>
    (sint (AnnotationRemovalDelay (Spec adapter)) \<le> 9223372036 \<longrightarrow>
       0 < sint (AnnotationRemovalDelay (Spec adapter) * second))"
proof -
  obtain got w where got: "getNimbleOpti c ctx ns ns (world s) = (got, w)"
    by (cases "getNimbleOpti c ctx ns ns (world s)")
  have "spec_valid (Spec adapter)"
  proof (cases got)
    case (Inr no)
    with got assms(3) have "getNimbleOpti c ctx ns ns (world s) = (Inr adapter, w)"
      by (simp add: getOrCreateNimbleOpti_def)
    then show ?thesis using assms(1) unfolding server_validates_def by blast
  next
    case (Inl err)
    let ?new = "\<lparr>no_Namespace = ns, no_Name = ns, Spec = \<lparr>TargetNamespace = ns,
      CertificateRenewalThreshold = 30, AnnotationRemovalDelay = 10\<rparr>, Status = emptyStatus\<rparr>"
    from Inl got assms(3) have "createNimbleOpti c ctx ?new w = (Inr adapter, world s')"
      by (auto simp: getOrCreateNimbleOpti_def split: if_splits prod.splits sum.splits)
    then have "Spec adapter = Spec ?new" using assms(1) unfolding server_validates_def by blast
    with assms(2) show ?thesis by (cases ns) (simp_all add: spec_valid_def)
  qed
  then show ?thesis by (simp add: spec_valid_def delay_positive)
qed

text \<open>A cluster without stored settings, which gives back what it is sent.\<close>

definition no_settings :: "cluster client" where
  "no_settings = fake\<lparr>getNimbleOpti := (\<lambda>ctx ns n w. (Inl NotFound, w)),
     createNimbleOpti := (\<lambda>ctx no w. (Inr no, w))\<rparr>"

theorem settings_are_valid_witness:
  "\<exists>adapter s'. getOrCreateNimbleOpti no_settings background ''shop'' (operator_start small_cluster) =
     Some (Ret (Inr adapter), s') \<and> spec_valid (Spec adapter)"
proof -
  have "server_validates no_settings" by (simp add: server_validates_def no_settings_def)
  moreover obtain adapter s' where
    "getOrCreateNimbleOpti no_settings background ''shop'' (operator_start small_cluster) =
     Some (Ret (Inr adapter), s')"
    by (simp add: getOrCreateNimbleOpti_def no_settings_def isNotFound_def)
  ultimately show ?thesis using settings_are_valid by blast
qed

end
