(* ===== verification/DeepCopy.thy ===== *)
theory DeepCopy
  imports KubeTypes
begin

text \<open>
  \<open>api/v1/zz_generated.deepcopy.go\<close>, with memory made explicit: the conditions and paths of a
  status and the items of a list are slices, that is, windows on arrays of a store, so that two
  objects can share an array. The functions copy objects without sharing. The copying of the
  metadata is the library's: a parameter that works on a part of the store of its own.
\<close>

section \<open>Arrays and slices\<close>

type_synonym 'a arena = "'a list list"

record window =
  base_addr :: nat
  offset :: nat
  width :: nat

definition window_ok :: "'a arena \<Rightarrow> window \<Rightarrow> bool" where
  "window_ok A w \<longleftrightarrow> base_addr w < length A \<and> offset w + width w \<le> length (A ! base_addr w)"

definition elem_at :: "'a arena \<Rightarrow> window \<Rightarrow> nat \<Rightarrow> 'a" where
  "elem_at A w i = A ! base_addr w ! (offset w + i)"

definition set_elem :: "'a arena \<Rightarrow> window \<Rightarrow> nat \<Rightarrow> 'a \<Rightarrow> 'a arena" where
  "set_elem A w i x = A[base_addr w := (A ! base_addr w)[offset w + i := x]]"

definition read_window :: "'a arena \<Rightarrow> window \<Rightarrow> 'a list" where
  "read_window A w = take (width w) (drop (offset w) (A ! base_addr w))"

text \<open>\<open>make\<close>, and the built-in \<open>copy\<close> of as many elements as both windows have.\<close>

definition make_slice :: "nat \<Rightarrow> 'a \<Rightarrow> 'a arena \<Rightarrow> window \<times> 'a arena" where
  "make_slice n zero A = (\<lparr>base_addr = length A, offset = 0, width = n\<rparr>, A @ [replicate n zero])"

definition copy_slice :: "window \<Rightarrow> window \<Rightarrow> 'a arena \<Rightarrow> 'a arena" where
  "copy_slice dst src A =
     (let xs = take (width dst) (read_window A src); old = A ! base_addr dst
      in A[base_addr dst := take (offset dst) old @ xs @ drop (offset dst + length xs) old])"

section \<open>Objects\<close>

record status_ref =
  conditions_ref :: "window option"
  paths_ref :: "window option"

record 'm object_ref =
  type_meta :: "string \<times> string"
  object_meta :: 'm
  spec_part :: NimbleOptiSpec
  status_part :: status_ref

record 'm list_ref =
  list_type :: "string \<times> string"
  list_meta :: 'm
  items_ref :: "window option"

record ('m, 'h) store =
  conditions :: "string arena"
  paths :: "string arena"
  objects :: "'m object_ref arena"
  metas :: 'h

text \<open>What the library does: copy metadata of objects and lists, copy one condition, and zero values.\<close>

record ('m, 'h) meta_lib =
  copyMeta :: "'m \<Rightarrow> 'h \<Rightarrow> 'm \<times> 'h"
  copyListMeta :: "'m \<Rightarrow> 'h \<Rightarrow> 'm \<times> 'h"
  zeroMeta :: 'm
  copyCondition :: "string \<Rightarrow> string"
  zeroCondition :: string

section \<open>The generated functions\<close>

fun copy_conditions :: "('m, 'h) meta_lib \<Rightarrow> window \<Rightarrow> window \<Rightarrow> nat list \<Rightarrow> ('m, 'h) store \<Rightarrow> ('m, 'h) store" where
  "copy_conditions lib src dst [] s = s"
| "copy_conditions lib src dst (i # is) s =
     copy_conditions lib src dst is
       (s\<lparr>conditions := set_elem (conditions s) dst i (copyCondition lib (elem_at (conditions s) src i))\<rparr>)"

definition NimbleOptiStatus_DeepCopyInto ::
  "('m, 'h) meta_lib \<Rightarrow> status_ref \<Rightarrow> ('m, 'h) store \<Rightarrow> status_ref \<times> ('m, 'h) store" where
  "NimbleOptiStatus_DeepCopyInto lib inp s =
     (let out = inp;
          (out, s) = (case conditions_ref inp of
              None \<Rightarrow> (out, s)
            | Some src \<Rightarrow>
                (let (dst, A) = make_slice (width src) (zeroCondition lib) (conditions s)
                 in (out\<lparr>conditions_ref := Some dst\<rparr>,
                     copy_conditions lib src dst [0..<width src] (s\<lparr>conditions := A\<rparr>))));
          (out, s) = (case paths_ref inp of
              None \<Rightarrow> (out, s)
            | Some src \<Rightarrow>
                (let (dst, A) = make_slice (width src) [] (paths s)
                 in (out\<lparr>paths_ref := Some dst\<rparr>, s\<lparr>paths := copy_slice dst src A\<rparr>)))
      in (out, s))"

definition NimbleOptiSpec_DeepCopyInto :: "NimbleOptiSpec \<Rightarrow> NimbleOptiSpec" where
  "NimbleOptiSpec_DeepCopyInto inp = inp"

definition NimbleOpti_DeepCopyInto ::
  "('m, 'h) meta_lib \<Rightarrow> 'm object_ref \<Rightarrow> ('m, 'h) store \<Rightarrow> 'm object_ref \<times> ('m, 'h) store" where
  "NimbleOpti_DeepCopyInto lib inp s =
     (let out = inp;
          out = out\<lparr>type_meta := type_meta inp\<rparr>;
          (om, h) = copyMeta lib (object_meta inp) (metas s);
          out = out\<lparr>object_meta := om\<rparr>;
          s = s\<lparr>metas := h\<rparr>;
          out = out\<lparr>spec_part := spec_part inp\<rparr>;
          (st, s) = NimbleOptiStatus_DeepCopyInto lib (status_part inp) s
      in (out\<lparr>status_part := st\<rparr>, s))"

fun copy_objects :: "('m, 'h) meta_lib \<Rightarrow> window \<Rightarrow> window \<Rightarrow> nat list \<Rightarrow> ('m, 'h) store \<Rightarrow> ('m, 'h) store" where
  "copy_objects lib src dst [] s = s"
| "copy_objects lib src dst (i # is) s =
     (let (out, s) = NimbleOpti_DeepCopyInto lib (elem_at (objects s) src i) s
      in copy_objects lib src dst is (s\<lparr>objects := set_elem (objects s) dst i out\<rparr>))"

definition zero_status :: status_ref where
  "zero_status = \<lparr>conditions_ref = None, paths_ref = None\<rparr>"

definition zero_object :: "('m, 'h) meta_lib \<Rightarrow> 'm object_ref" where
  "zero_object lib = \<lparr>type_meta = ([], []), object_meta = zeroMeta lib,
     spec_part = \<lparr>TargetNamespace = [], CertificateRenewalThreshold = 0, AnnotationRemovalDelay = 0\<rparr>,
     status_part = zero_status\<rparr>"

definition NimbleOptiList_DeepCopyInto ::
  "('m, 'h) meta_lib \<Rightarrow> 'm list_ref \<Rightarrow> ('m, 'h) store \<Rightarrow> 'm list_ref \<times> ('m, 'h) store" where
  "NimbleOptiList_DeepCopyInto lib inp s =
     (let out = inp;
          out = out\<lparr>list_type := list_type inp\<rparr>;
          (lm, h) = copyListMeta lib (list_meta inp) (metas s);
          out = out\<lparr>list_meta := lm\<rparr>;
          s = s\<lparr>metas := h\<rparr>
      in case items_ref inp of
           None \<Rightarrow> (out, s)
         | Some src \<Rightarrow>
             (let (dst, A) = make_slice (width src) (zero_object lib) (objects s)
              in (out\<lparr>items_ref := Some dst\<rparr>,
                  copy_objects lib src dst [0..<width src] (s\<lparr>objects := A\<rparr>))))"

text \<open>The methods on pointers, which may be nil, and the ones that return an interface.\<close>

definition NimbleOptiStatus_DeepCopy ::
  "('m, 'h) meta_lib \<Rightarrow> status_ref option \<Rightarrow> ('m, 'h) store \<Rightarrow> status_ref option \<times> ('m, 'h) store" where
  "NimbleOptiStatus_DeepCopy lib inp s =
     (case inp of None \<Rightarrow> (None, s)
      | Some v \<Rightarrow> (case NimbleOptiStatus_DeepCopyInto lib v s of (out, s') \<Rightarrow> (Some out, s')))"

definition NimbleOptiSpec_DeepCopy :: "NimbleOptiSpec option \<Rightarrow> NimbleOptiSpec option" where
  "NimbleOptiSpec_DeepCopy inp =
     (case inp of None \<Rightarrow> None | Some v \<Rightarrow> Some (NimbleOptiSpec_DeepCopyInto v))"

definition NimbleOpti_DeepCopy ::
  "('m, 'h) meta_lib \<Rightarrow> 'm object_ref option \<Rightarrow> ('m, 'h) store \<Rightarrow> 'm object_ref option \<times> ('m, 'h) store" where
  "NimbleOpti_DeepCopy lib inp s =
     (case inp of None \<Rightarrow> (None, s)
      | Some v \<Rightarrow> (case NimbleOpti_DeepCopyInto lib v s of (out, s') \<Rightarrow> (Some out, s')))"

definition NimbleOptiList_DeepCopy ::
  "('m, 'h) meta_lib \<Rightarrow> 'm list_ref option \<Rightarrow> ('m, 'h) store \<Rightarrow> 'm list_ref option \<times> ('m, 'h) store" where
  "NimbleOptiList_DeepCopy lib inp s =
     (case inp of None \<Rightarrow> (None, s)
      | Some v \<Rightarrow> (case NimbleOptiList_DeepCopyInto lib v s of (out, s') \<Rightarrow> (Some out, s')))"

datatype 'm runtime_object = RuntimeNimbleOpti "'m object_ref" | RuntimeNimbleOptiList "'m list_ref"

definition NimbleOpti_DeepCopyObject ::
  "('m, 'h) meta_lib \<Rightarrow> 'm object_ref option \<Rightarrow> ('m, 'h) store \<Rightarrow> 'm runtime_object option \<times> ('m, 'h) store" where
  "NimbleOpti_DeepCopyObject lib inp s =
     (case NimbleOpti_DeepCopy lib inp s of
        (Some c, s') \<Rightarrow> (Some (RuntimeNimbleOpti c), s') | (None, s') \<Rightarrow> (None, s'))"

definition NimbleOptiList_DeepCopyObject ::
  "('m, 'h) meta_lib \<Rightarrow> 'm list_ref option \<Rightarrow> ('m, 'h) store \<Rightarrow> 'm runtime_object option \<times> ('m, 'h) store" where
  "NimbleOptiList_DeepCopyObject lib inp s =
     (case NimbleOptiList_DeepCopy lib inp s of
        (Some c, s') \<Rightarrow> (Some (RuntimeNimbleOptiList c), s') | (None, s') \<Rightarrow> (None, s'))"

text \<open>A nil pointer is copied to nil, and the interface that is returned for it is nil too.\<close>

lemma DeepCopy_nil [simp]:
  "NimbleOptiStatus_DeepCopy lib None s = (None, s)"
  "NimbleOptiSpec_DeepCopy None = None"
  "NimbleOpti_DeepCopyObject lib None s = (None, s)"
  "NimbleOptiList_DeepCopyObject lib None s = (None, s)"
  by (simp_all add: NimbleOptiStatus_DeepCopy_def NimbleOptiSpec_DeepCopy_def NimbleOpti_DeepCopy_def
      NimbleOptiList_DeepCopy_def NimbleOpti_DeepCopyObject_def NimbleOptiList_DeepCopyObject_def)

section \<open>What an object is, and which objects are well formed\<close>

definition read_status :: "('m, 'h) store \<Rightarrow> status_ref \<Rightarrow> NimbleOptiStatus" where
  "read_status s st = \<lparr>Conditions = map_option (read_window (conditions s)) (conditions_ref st),
     IngressPathsForRenewal = map_option (read_window (paths s)) (paths_ref st)\<rparr>"

type_synonym 'v object_value = "(string \<times> string) \<times> 'v \<times> NimbleOptiSpec \<times> NimbleOptiStatus"

definition read_object :: "('m \<Rightarrow> 'h \<Rightarrow> 'v) \<Rightarrow> ('m, 'h) store \<Rightarrow> 'm object_ref \<Rightarrow> 'v object_value" where
  "read_object mview s ob =
     (type_meta ob, mview (object_meta ob) (metas s), spec_part ob, read_status s (status_part ob))"

definition read_list :: "('m \<Rightarrow> 'h \<Rightarrow> 'v) \<Rightarrow> ('m, 'h) store \<Rightarrow> 'm list_ref \<Rightarrow>
    (string \<times> string) \<times> 'v \<times> 'v object_value slice" where
  "read_list mview s l = (list_type l, mview (list_meta l) (metas s),
     map_option (\<lambda>w. map (read_object mview s) (read_window (objects s) w)) (items_ref l))"

definition status_ok :: "('m, 'h) store \<Rightarrow> status_ref \<Rightarrow> bool" where
  "status_ok s st \<longleftrightarrow> pred_option (window_ok (conditions s)) (conditions_ref st) \<and>
     pred_option (window_ok (paths s)) (paths_ref st)"

definition object_ok :: "('m \<Rightarrow> 'h \<Rightarrow> bool) \<Rightarrow> ('m, 'h) store \<Rightarrow> 'm object_ref \<Rightarrow> bool" where
  "object_ok mok s ob \<longleftrightarrow> mok (object_meta ob) (metas s) \<and> status_ok s (status_part ob)"

definition list_ok :: "('m \<Rightarrow> 'h \<Rightarrow> bool) \<Rightarrow> ('m, 'h) store \<Rightarrow> 'm list_ref \<Rightarrow> bool" where
  "list_ok mok s l \<longleftrightarrow> mok (list_meta l) (metas s) \<and>
     (\<forall>w. items_ref l = Some w \<longrightarrow>
        window_ok (objects s) w \<and> (\<forall>ob \<in> set (read_window (objects s) w). object_ok mok s ob))"

text \<open>The library's contract: a copy has the same value, and copying leaves everything else as it is.\<close>

definition lib_copies :: "('m, 'h) meta_lib \<Rightarrow> ('m \<Rightarrow> 'h \<Rightarrow> bool) \<Rightarrow> ('m \<Rightarrow> 'h \<Rightarrow> 'v) \<Rightarrow> bool" where
  "lib_copies lib mok mview \<longleftrightarrow> (\<forall>x. copyCondition lib x = x) \<and>
     (\<forall>copier \<in> {copyMeta lib, copyListMeta lib}. \<forall>m h m' h'. mok m h \<longrightarrow> copier m h = (m', h') \<longrightarrow>
        mok m' h' \<and> mview m' h' = mview m h \<and> (\<forall>x. mok x h \<longrightarrow> mok x h' \<and> mview x h' = mview x h))"

lemma lib_copiesD:
  assumes "lib_copies lib mok mview" and "mok m h"
    and "copyMeta lib m h = (m', h') \<or> copyListMeta lib m h = (m', h')"
  shows "mok m' h'" "mview m' h' = mview m h" "\<And>x. mok x h \<Longrightarrow> mok x h' \<and> mview x h' = mview x h"
  using assms unfolding lib_copies_def by blast+

section \<open>Arrays\<close>

lemma window_append [simp]:
  assumes "window_ok A w"
  shows "window_ok (A @ B) w" "read_window (A @ B) w = read_window A w" "elem_at (A @ B) w i = elem_at A w i"
  using assms by (auto simp: window_ok_def read_window_def elem_at_def nth_append)

lemma fresh_window [simp]:
  "length xs = n \<Longrightarrow> window_ok (A @ [xs]) \<lparr>base_addr = length A, offset = 0, width = n\<rparr>"
  "length xs = n \<Longrightarrow> read_window (A @ [xs]) \<lparr>base_addr = length A, offset = 0, width = n\<rparr> = xs"
  by (auto simp: window_ok_def read_window_def)

lemma set_fresh:
  "set_elem (A @ [xs]) \<lparr>base_addr = length A, offset = 0, width = n\<rparr> i x = A @ [xs[i := x]]"
  by (simp add: set_elem_def)

lemma read_elems:
  assumes "window_ok A w"
  shows "map (elem_at A w) [0..<width w] = read_window A w"
  using assms by (auto simp: window_ok_def read_window_def elem_at_def intro!: nth_equalityI)

lemma foldl_set:
  "k \<le> length xs \<Longrightarrow> foldl (\<lambda>ys i. ys[i := f i]) xs [0..<k] = map f [0..<k] @ drop k xs"
proof (induction k)
  case (Suc k)
  then have "drop k xs = xs ! k # drop (Suc k) xs" by (simp add: Cons_nth_drop_Suc)
  with Suc show ?case by (simp add: list_update_append)
qed simp

lemma copy_fresh:
  assumes "window_ok A src"
  shows "copy_slice \<lparr>base_addr = length A, offset = 0, width = width src\<rparr> src (A @ [replicate (width src) z])
    = A @ [read_window A src]"
proof -
  have "length (read_window A src) = width src"
    using assms by (auto simp: window_ok_def read_window_def)
  then show ?thesis using assms by (simp add: copy_slice_def)
qed

lemma copy_conditions_foldl:
  assumes "window_ok A src" and "conditions s = A @ [xs]"
  shows "copy_conditions lib src \<lparr>base_addr = length A, offset = 0, width = n\<rparr> is s =
    s\<lparr>conditions := A @ [foldl (\<lambda>ys i. ys[i := copyCondition lib (elem_at A src i)]) xs is]\<rparr>"
  using assms(2)
proof (induction "is" arbitrary: s xs)
  case (Cons i "is")
  have "conditions (s\<lparr>conditions := A @ [xs[i := copyCondition lib (elem_at A src i)]]\<rparr>) =
      A @ [xs[i := copyCondition lib (elem_at A src i)]]" by simp
  from Cons.IH [OF this] Cons.prems show ?case using assms(1) by (simp add: set_fresh)
qed (cases s; simp)

lemma copy_conditions_all:
  assumes "window_ok A src" and "conditions s = A @ [replicate (width src) z]"
    and "\<And>x. copyCondition lib x = x"
  shows "copy_conditions lib src \<lparr>base_addr = length A, offset = 0, width = width src\<rparr> [0..<width src] s =
    s\<lparr>conditions := A @ [read_window A src]\<rparr>"
proof -
  have "copyCondition lib = id" using assms(3) by auto
  then show ?thesis
    using assms(1,2) by (simp add: copy_conditions_foldl foldl_set read_elems flip: read_elems)
qed

lemma copy_conditions_fresh:
  assumes "window_ok (conditions s) src" and "\<And>x. copyCondition lib x = x"
  shows "copy_conditions lib src \<lparr>base_addr = length (conditions s), offset = 0, width = width src\<rparr>
      [0..<width src] (s\<lparr>conditions := conditions s @ [replicate (width src) z]\<rparr>) =
    s\<lparr>conditions := conditions s @ [read_window (conditions s) src]\<rparr>"
  using copy_conditions_all [OF assms(1) _ assms(2),
      of "s\<lparr>conditions := conditions s @ [replicate (width src) z]\<rparr>" z] by simp

section \<open>Stores that only grow\<close>

definition grows :: "('m \<Rightarrow> 'h \<Rightarrow> bool) \<Rightarrow> ('m \<Rightarrow> 'h \<Rightarrow> 'v) \<Rightarrow> ('m, 'h) store \<Rightarrow> ('m, 'h) store \<Rightarrow> bool" where
  "grows mok mview s t \<longleftrightarrow>
     prefix (conditions s) (conditions t) \<and> prefix (paths s) (paths t) \<and>
     (\<forall>x. mok x (metas s) \<longrightarrow> mok x (metas t) \<and> mview x (metas t) = mview x (metas s))"

lemma grows_refl [simp]: "grows mok mview s s"
  by (simp add: grows_def)

lemma grows_trans: "grows mok mview s t \<Longrightarrow> grows mok mview t u \<Longrightarrow> grows mok mview s u"
  unfolding grows_def by (auto intro: prefix_order.trans)

lemma grows_objects [simp]:
  "grows mok mview (s\<lparr>objects := A\<rparr>) t = grows mok mview s t"
  "grows mok mview s (t\<lparr>objects := A\<rparr>) = grows mok mview s t"
  by (simp_all add: grows_def)

lemma objects_irrelevant [simp]:
  "read_object mview (s\<lparr>objects := A\<rparr>) ob = read_object mview s ob"
  "object_ok mok (s\<lparr>objects := A\<rparr>) ob = object_ok mok s ob"
  by (simp_all add: read_object_def object_ok_def read_status_def status_ok_def)

lemma status_grows:
  assumes "grows mok mview s t" and "status_ok s st"
  shows "status_ok t st" "read_status t st = read_status s st"
proof -
  obtain B C where "conditions t = conditions s @ B" "paths t = paths s @ C"
    using assms(1) by (auto simp: grows_def prefix_def)
  then show "status_ok t st" "read_status t st = read_status s st"
    using assms(2) by (auto simp: status_ok_def read_status_def pred_option_def map_option_case split: option.split)
qed

lemma object_grows:
  assumes "grows mok mview s t" and "object_ok mok s ob"
  shows "object_ok mok t ob" "read_object mview t ob = read_object mview s ob"
  using assms status_grows [OF assms(1)] by (auto simp: object_ok_def read_object_def grows_def)

section \<open>What the copies are\<close>

text \<open>An object is fresh for a store when none of its arrays is in that store.\<close>

definition status_fresh :: "('m, 'h) store \<Rightarrow> status_ref \<Rightarrow> bool" where
  "status_fresh s st \<longleftrightarrow>
     pred_option (\<lambda>w. length (conditions s) \<le> base_addr w) (conditions_ref st) \<and>
     pred_option (\<lambda>w. length (paths s) \<le> base_addr w) (paths_ref st)"

lemma fresh_grows: "grows mok mview s t \<Longrightarrow> status_fresh t st \<Longrightarrow> status_fresh s st"
  by (auto simp: status_fresh_def grows_def pred_option_def dest!: prefix_length_le)

lemma status_copied:
  assumes "\<And>x. copyCondition lib x = x" and "status_ok s st"
    and copy: "NimbleOptiStatus_DeepCopyInto lib st s = (st', s')"
  shows "grows mok mview s s'" "objects s' = objects s" "metas s' = metas s"
    and "status_ok s' st'" "status_fresh s st'" "read_status s' st' = read_status s st"
proof -
  obtain cs ps where st: "st = \<lparr>conditions_ref = cs, paths_ref = ps\<rparr>" by (cases st)
  let ?new = "\<lambda>A w. \<lparr>base_addr = length A, offset = 0, width = width w\<rparr>"
  have s': "s' = s\<lparr>conditions := conditions s @ (case cs of None \<Rightarrow> [] | Some w \<Rightarrow> [read_window (conditions s) w]),
      paths := paths s @ (case ps of None \<Rightarrow> [] | Some w \<Rightarrow> [read_window (paths s) w])\<rparr>"
    and st': "st' = \<lparr>conditions_ref = map_option (?new (conditions s)) cs, paths_ref = map_option (?new (paths s)) ps\<rparr>"
    using copy assms(2) st
    by (auto simp: NimbleOptiStatus_DeepCopyInto_def Let_def make_slice_def copy_fresh status_ok_def
        copy_conditions_fresh [OF _ assms(1)] split: option.splits)
  have len: "length (read_window A w) = width w" if "window_ok A w" for A :: "string arena" and w
    using that by (auto simp: window_ok_def read_window_def)
  show "grows mok mview s s'" "objects s' = objects s" "metas s' = metas s"
    by (simp_all add: s' grows_def)
  show "status_ok s' st'" "status_fresh s st'" "read_status s' st' = read_status s st"
    using assms(2) len
    by (cases cs; cases ps; simp add: s' st st' status_ok_def status_fresh_def read_status_def)+
qed

lemma object_copied:
  assumes lib: "lib_copies lib mok mview" and ok: "object_ok mok s ob"
    and copy: "NimbleOpti_DeepCopyInto lib ob s = (ob', s')"
  shows "grows mok mview s s'" "objects s' = objects s"
    and "object_ok mok s' ob'" "status_fresh s (status_part ob')" "read_object mview s' ob' = read_object mview s ob"
proof -
  obtain om h where meta: "copyMeta lib (object_meta ob) (metas s) = (om, h)"
    by (cases "copyMeta lib (object_meta ob) (metas s)")
  let ?s = "s\<lparr>metas := h\<rparr>"
  obtain st t where status: "NimbleOptiStatus_DeepCopyInto lib (status_part ob) ?s = (st, t)"
    by (cases "NimbleOptiStatus_DeepCopyInto lib (status_part ob) ?s")
  have s': "s' = t" and ob': "ob' = ob\<lparr>object_meta := om, status_part := st\<rparr>"
    using copy meta status by (simp_all add: NimbleOpti_DeepCopyInto_def Let_def)
  have law: "mok om h" "mview om h = mview (object_meta ob) (metas s)"
    and keep: "\<And>x. mok x (metas s) \<Longrightarrow> mok x h \<and> mview x h = mview x (metas s)"
    using lib_copiesD [OF lib _ disjI1 [OF meta]] ok by (simp_all add: object_ok_def)
  have cond: "\<And>x. copyCondition lib x = x" using lib by (simp add: lib_copies_def)
  have ok': "status_ok ?s (status_part ob)" using ok by (simp add: object_ok_def status_ok_def)
  note st = status_copied [OF cond ok' status]
  have first: "grows mok mview s ?s" using keep by (simp add: grows_def)
  show grow: "grows mok mview s s'" using grows_trans [OF first st(1)] s' by simp
  show "objects s' = objects s" using st(2) s' by simp
  show "object_ok mok s' ob'" using st(3,4) law s' ob' by (simp add: object_ok_def)
  show "status_fresh s (status_part ob')" using st(5) ob' by (simp add: status_fresh_def)
  have "read_status ?s (status_part ob) = read_status s (status_part ob)" by (simp add: read_status_def)
  then show "read_object mview s' ob' = read_object mview s ob"
    using st(3,6) law s' ob' by (simp add: read_object_def)
qed

lemma copy_objects_append:
  "copy_objects lib src dst (is @ js) s = copy_objects lib src dst js (copy_objects lib src dst is s)"
  by (induction "is" arbitrary: s) (auto split: prod.split)

lemma objects_copied:
  assumes lib: "lib_copies lib mok mview" and src: "window_ok A src"
    and ok: "\<And>i. i < width src \<Longrightarrow> object_ok mok s (elem_at A src i)"
    and objs: "objects s = A @ [xs]" "length xs = width src"
    and dst: "dst = \<lparr>base_addr = length A, offset = 0, width = width src\<rparr>"
  shows "k \<le> width src \<Longrightarrow> \<exists>ys. length ys = width src \<and> objects (copy_objects lib src dst [0..<k] s) = A @ [ys] \<and>
     grows mok mview s (copy_objects lib src dst [0..<k] s) \<and>
     (\<forall>i<k. object_ok mok (copy_objects lib src dst [0..<k] s) (ys ! i) \<and> status_fresh s (status_part (ys ! i)) \<and>
        read_object mview (copy_objects lib src dst [0..<k] s) (ys ! i) = read_object mview s (elem_at A src i))"
proof (induction k)
  case 0
  then show ?case using objs by auto
next
  case (Suc k)
  let ?t = "copy_objects lib src dst [0..<k] s"
  from Suc obtain ys where ys: "length ys = width src" "objects ?t = A @ [ys]" "grows mok mview s ?t"
    and prev: "\<And>i. i < k \<Longrightarrow> object_ok mok ?t (ys ! i) \<and> status_fresh s (status_part (ys ! i)) \<and>
        read_object mview ?t (ys ! i) = read_object mview s (elem_at A src i)" by fastforce
  have from_src: "elem_at (objects ?t) src k = elem_at A src k" using ys(2) src by simp
  have sk: "object_ok mok ?t (elem_at A src k)"
    "read_object mview ?t (elem_at A src k) = read_object mview s (elem_at A src k)"
    using object_grows [OF ys(3) ok [of k]] Suc.prems by simp_all
  obtain ob u where copy: "NimbleOpti_DeepCopyInto lib (elem_at A src k) ?t = (ob, u)"
    by (cases "NimbleOpti_DeepCopyInto lib (elem_at A src k) ?t")
  note c = object_copied [OF lib sk(1) copy]
  have step: "copy_objects lib src dst [0..<Suc k] s = u\<lparr>objects := A @ [ys[k := ob]]\<rparr>"
    using copy from_src ys(2) c(2) dst by (simp add: copy_objects_append set_fresh)
  have new: "object_ok mok u (ys[k := ob] ! i) \<and> status_fresh s (status_part (ys[k := ob] ! i)) \<and>
      read_object mview u (ys[k := ob] ! i) = read_object mview s (elem_at A src i)" if "i < Suc k" for i
  proof (cases "i = k")
    case True
    then show ?thesis using c(3,5) sk(2) fresh_grows [OF ys(3) c(4)] ys(1) Suc.prems by simp
  next
    case False
    with that have "i < k" by simp
    then show ?thesis using prev [of i] object_grows [OF c(1)] False by simp
  qed
  show ?case unfolding step
    using new ys(1) grows_trans [OF ys(3) c(1)] by (intro exI [of _ "ys[k := ob]"]) simp
qed

lemma list_copied:
  assumes lib: "lib_copies lib mok mview" and ok: "list_ok mok s l"
    and copy: "NimbleOptiList_DeepCopyInto lib l s = (l', s')"
  shows "grows mok mview s s'" "prefix (objects s) (objects s')" "list_ok mok s' l'"
    and "read_list mview s' l' = read_list mview s l"
    and "pred_option (\<lambda>w. length (objects s) \<le> base_addr w \<and>
           (\<forall>ob \<in> set (read_window (objects s') w). status_fresh s (status_part ob))) (items_ref l')"
proof -
  obtain lm h where meta: "copyListMeta lib (list_meta l) (metas s) = (lm, h)"
    by (cases "copyListMeta lib (list_meta l) (metas s)")
  let ?s = "s\<lparr>metas := h\<rparr>"
  have law: "mok lm h" "mview lm h = mview (list_meta l) (metas s)"
    and keep: "\<And>x. mok x (metas s) \<Longrightarrow> mok x h \<and> mview x h = mview x (metas s)"
    using lib_copiesD [OF lib _ disjI2 [OF meta]] ok by (simp_all add: list_ok_def)
  have first: "grows mok mview s ?s" using keep by (simp add: grows_def)
  have "grows mok mview s s' \<and> prefix (objects s) (objects s') \<and> list_ok mok s' l' \<and>
    read_list mview s' l' = read_list mview s l \<and>
    pred_option (\<lambda>w. length (objects s) \<le> base_addr w \<and>
           (\<forall>ob \<in> set (read_window (objects s') w). status_fresh s (status_part ob))) (items_ref l')"
  proof (cases "items_ref l")
    case None
    then have "s' = ?s" "l' = l\<lparr>list_meta := lm\<rparr>"
      using copy meta by (simp_all add: NimbleOptiList_DeepCopyInto_def Let_def)
    then show ?thesis using None law first by (simp add: list_ok_def read_list_def)
  next
    case (Some src)
    let ?A = "objects s" and ?z = "replicate (width src) (zero_object lib)"
    let ?dst = "\<lparr>base_addr = length ?A, offset = 0, width = width src\<rparr>"
    let ?t = "?s\<lparr>objects := ?A @ [?z]\<rparr>"
    have src: "window_ok ?A src" and items: "\<And>ob. ob \<in> set (read_window ?A src) \<Longrightarrow> object_ok mok s ob"
      using ok Some by (auto simp: list_ok_def)
    have eq: "l' = l\<lparr>list_meta := lm, items_ref := Some ?dst\<rparr>" "s' = copy_objects lib src ?dst [0..<width src] ?t"
      using copy meta Some by (simp_all add: NimbleOptiList_DeepCopyInto_def Let_def make_slice_def)
    have elem: "elem_at ?A src i \<in> set (read_window ?A src)" if "i < width src" for i
      using that by (simp flip: read_elems [OF src])
    have before: "object_ok mok ?t (elem_at ?A src i)"
      "read_object mview ?t (elem_at ?A src i) = read_object mview s (elem_at ?A src i)" if "i < width src" for i
      using object_grows [OF first items [OF elem [OF that]]] by simp_all
    obtain ys where ys: "length ys = width src" "objects s' = ?A @ [ys]" "grows mok mview ?t s'"
      and each: "\<And>i. i < width src \<Longrightarrow> object_ok mok s' (ys ! i) \<and> status_fresh ?t (status_part (ys ! i)) \<and>
          read_object mview s' (ys ! i) = read_object mview ?t (elem_at ?A src i)"
      using objects_copied [OF lib src before(1), of ?z ?dst "width src"] eq(2) by auto
    have read: "read_window (objects s') ?dst = ys" using ys(1,2) by simp
    have grow: "grows mok mview s s'" using grows_trans [OF first] ys(3) by simp
    have meta': "mok lm (metas s')" "mview lm (metas s') = mview (list_meta l) (metas s)"
      using ys(3) law by (simp_all add: grows_def)
    have "map (read_object mview s') ys = map (read_object mview s) (map (elem_at ?A src) [0..<width src])"
      using ys(1) each before(2) by (intro nth_equalityI) simp_all
    then have vals: "map (read_object mview s') ys = map (read_object mview s) (read_window ?A src)"
      by (simp only: read_elems [OF src])
    have all: "object_ok mok s' ob \<and> status_fresh s (status_part ob)" if member: "ob \<in> set ys" for ob
    proof -
      obtain i where "i < width src" "ob = ys ! i" using member ys(1) by (auto simp: in_set_conv_nth)
      with each [of i] show ?thesis by (simp add: status_fresh_def)
    qed
    have "window_ok (objects s') ?dst" using ys(1,2) by simp
    with read grow meta' vals all ys(2) show ?thesis
      using eq(1) Some by (simp add: list_ok_def read_list_def)
  qed
  then show "grows mok mview s s'" "prefix (objects s) (objects s')" "list_ok mok s' l'"
    "read_list mview s' l' = read_list mview s l"
    "pred_option (\<lambda>w. length (objects s) \<le> base_addr w \<and>
           (\<forall>ob \<in> set (read_window (objects s') w). status_fresh s (status_part ob))) (items_ref l')"
    by blast+
qed

section \<open>Writing into arrays\<close>

text \<open>
  Two stores that differ only in arrays the store \<open>s\<close> already had, or only in arrays it did not
  have: what writing through the original, or through a copy made in \<open>s\<close>, can do.
\<close>

definition same_arrays :: "(nat \<Rightarrow> bool) \<Rightarrow> 'a arena \<Rightarrow> 'a arena \<Rightarrow> bool" where
  "same_arrays P A B \<longleftrightarrow> length A = length B \<and> (\<forall>a < length A. P a \<longrightarrow> A ! a = B ! a)"

definition only_old_written :: "('m, 'h) store \<Rightarrow> ('m, 'h) store \<Rightarrow> ('m, 'h) store \<Rightarrow> bool" where
  "only_old_written s t u \<longleftrightarrow>
     same_arrays (\<lambda>a. length (conditions s) \<le> a) (conditions t) (conditions u) \<and>
     same_arrays (\<lambda>a. length (paths s) \<le> a) (paths t) (paths u) \<and>
     same_arrays (\<lambda>a. length (objects s) \<le> a) (objects t) (objects u) \<and> metas u = metas t"

definition only_new_written :: "('m, 'h) store \<Rightarrow> ('m, 'h) store \<Rightarrow> ('m, 'h) store \<Rightarrow> bool" where
  "only_new_written s t u \<longleftrightarrow>
     same_arrays (\<lambda>a. a < length (conditions s)) (conditions t) (conditions u) \<and>
     same_arrays (\<lambda>a. a < length (paths s)) (paths t) (paths u) \<and>
     same_arrays (\<lambda>a. a < length (objects s)) (objects t) (objects u) \<and> metas u = metas t"

lemma same_read:
  assumes "same_arrays P A B" and "window_ok A w" and "P (base_addr w)"
  shows "read_window B w = read_window A w"
  using assms by (simp add: same_arrays_def window_ok_def read_window_def)

lemma status_unwritten:
  assumes "same_arrays P (conditions t) (conditions u)" and "same_arrays Q (paths t) (paths u)"
    and "status_ok t st" and "pred_option (\<lambda>w. P (base_addr w)) (conditions_ref st)"
    and "pred_option (\<lambda>w. Q (base_addr w)) (paths_ref st)"
  shows "read_status u st = read_status t st"
  using assms same_read [OF assms(1)] same_read [OF assms(2)]
  by (auto simp: read_status_def status_ok_def pred_option_def map_option_case split: option.split)

lemma list_unwritten:
  assumes "same_arrays P (conditions t) (conditions u)" and "same_arrays Q (paths t) (paths u)"
    and "same_arrays R (objects t) (objects u)" and "metas u = metas t"
    and "list_ok mok t l"
    and "pred_option (\<lambda>w. R (base_addr w) \<and> (\<forall>ob \<in> set (read_window (objects t) w).
       pred_option (\<lambda>w. P (base_addr w)) (conditions_ref (status_part ob)) \<and>
       pred_option (\<lambda>w. Q (base_addr w)) (paths_ref (status_part ob)))) (items_ref l)"
  shows "read_list mview u l = read_list mview t l"
proof (cases "items_ref l")
  case None
  then show ?thesis using assms(4) by (simp add: read_list_def)
next
  case (Some w)
  have "read_window (objects u) w = read_window (objects t) w"
    using assms(5,6) Some by (intro same_read [OF assms(3)]) (simp_all add: list_ok_def)
  moreover have "read_object mview u ob = read_object mview t ob" if "ob \<in> set (read_window (objects t) w)" for ob
    using assms(4-6) Some that status_unwritten [OF assms(1,2), of "status_part ob"]
    by (auto simp: read_object_def list_ok_def object_ok_def)
  ultimately show ?thesis using Some assms(4) by (simp add: read_list_def)
qed

lemma list_kept:
  assumes grow: "grows mok mview s t" "prefix (objects s) (objects t)" and ok: "list_ok mok s l"
  shows "list_ok mok t l" "read_list mview t l = read_list mview s l"
proof -
  have win: "window_ok (objects t) w" "read_window (objects t) w = read_window (objects s) w"
    if "items_ref l = Some w" for w
    using that ok grow(2) by (auto simp: list_ok_def prefix_def)
  show "list_ok mok t l"
    using ok grow(1) win object_grows(1) [OF grow(1)] by (auto simp: list_ok_def grows_def)
  show "read_list mview t l = read_list mview s l"
    using ok grow(1) win object_grows(2) [OF grow(1)]
    by (cases "items_ref l") (auto simp: list_ok_def read_list_def grows_def)
qed

lemma list_old:
  assumes "list_ok mok s l"
  shows "pred_option (\<lambda>w. base_addr w < length (objects s) \<and> (\<forall>ob \<in> set (read_window (objects s) w).
       pred_option (\<lambda>w. base_addr w < length (conditions s)) (conditions_ref (status_part ob)) \<and>
       pred_option (\<lambda>w. base_addr w < length (paths s)) (paths_ref (status_part ob)))) (items_ref l)"
  using assms
  by (auto simp: list_ok_def object_ok_def status_ok_def pred_option_def window_ok_def)

section \<open>An example\<close>

text \<open>A list of two objects that share one array of conditions, with metadata in cells of its own.\<close>

definition cell_lib :: "(nat, string list) meta_lib" where
  "cell_lib = \<lparr>copyMeta = (\<lambda>m h. (length h, h @ [h ! m])), copyListMeta = (\<lambda>m h. (length h, h @ [h ! m])),
     zeroMeta = 0, copyCondition = (\<lambda>x. x), zeroCondition = []\<rparr>"

definition cell_ok :: "nat \<Rightarrow> string list \<Rightarrow> bool" where "cell_ok m h \<longleftrightarrow> m < length h"
definition cell_view :: "nat \<Rightarrow> string list \<Rightarrow> string" where "cell_view m h = h ! m"

lemma cell_lib_copies: "lib_copies cell_lib cell_ok cell_view"
  by (auto simp: lib_copies_def cell_lib_def cell_ok_def cell_view_def nth_append)

definition settings_object :: "nat \<Rightarrow> nat object_ref" where
  "settings_object m = \<lparr>type_meta = (''NimbleOpti'', ''v1''), object_meta = m,
     spec_part = \<lparr>TargetNamespace = ''shop'', CertificateRenewalThreshold = 30, AnnotationRemovalDelay = 10\<rparr>,
     status_part = \<lparr>conditions_ref = Some \<lparr>base_addr = 0, offset = 1, width = 1\<rparr>,
       paths_ref = None\<rparr>\<rparr>"

definition shared_store :: "(nat, string list) store" where
  "shared_store = \<lparr>conditions = [[''Ready'', ''Stalled'']], paths = [],
     objects = [[settings_object 0, settings_object 1]], metas = [''a'', ''b'', ''list'']\<rparr>"

definition shared_list :: "nat list_ref" where
  "shared_list = \<lparr>list_type = (''NimbleOptiList'', ''v1''), list_meta = 2,
     items_ref = Some \<lparr>base_addr = 0, offset = 0, width = 2\<rparr>\<rparr>"

lemma shared_list_ok: "list_ok cell_ok shared_store shared_list"
  by (simp add: list_ok_def shared_store_def shared_list_def settings_object_def object_ok_def
      status_ok_def cell_ok_def window_ok_def read_window_def)

lemma shared_list_copy:
  "fst (NimbleOptiList_DeepCopy cell_lib (Some shared_list) shared_store) =
    Some (shared_list\<lparr>list_meta := 3, items_ref := Some \<lparr>base_addr = 1, offset = 0, width = 2\<rparr>\<rparr>)"
  "conditions (snd (NimbleOptiList_DeepCopy cell_lib (Some shared_list) shared_store)) =
    [[''Ready'', ''Stalled''], [''Stalled''], [''Stalled'']]"
  by code_simp+

section \<open>Properties\<close>

text \<open>
  C35. A deep copy of a list is equal to the original and independent of it. The copy reads the same
  value, the original still reads its value, and afterwards writing into any arrays that existed
  before leaves the copy's value alone, and writing into any arrays that the copying made leaves the
  original's alone, although objects of the original may share arrays.
\<close>

theorem deep_copy_independent:
  assumes lib: "lib_copies lib mok mview" and ok: "list_ok mok s l"
    and copy: "NimbleOptiList_DeepCopy lib (Some l) s = (Some c, s')"
  shows "read_list mview s' c = read_list mview s l \<and> read_list mview s' l = read_list mview s l \<and>
    (\<forall>u. only_old_written s s' u \<longrightarrow> read_list mview u c = read_list mview s l) \<and>
    (\<forall>u. only_new_written s s' u \<longrightarrow> read_list mview u l = read_list mview s l)"
proof -
  have "NimbleOptiList_DeepCopyInto lib l s = (c, s')"
    using copy by (auto simp: NimbleOptiList_DeepCopy_def split: prod.splits)
  note copied = list_copied [OF lib ok this]
  note kept = list_kept [OF copied(1,2) ok]
  have "read_list mview u c = read_list mview s' c" if "only_old_written s s' u" for u
    using that copied(5) unfolding only_old_written_def
    by (intro list_unwritten [OF _ _ _ _ copied(3)]) (auto simp: status_fresh_def pred_option_def)
  moreover have "items_ref l = Some w \<Longrightarrow> read_window (objects s') w = read_window (objects s) w" for w
    using ok copied(2) by (auto simp: list_ok_def prefix_def)
  then have "read_list mview u l = read_list mview s' l" if "only_new_written s s' u" for u
    using that list_old [OF ok] unfolding only_new_written_def
    by (intro list_unwritten [OF _ _ _ _ kept(1)]) (auto simp: pred_option_def)
  ultimately show ?thesis using copied(4) kept(2) by simp
qed

theorem deep_copy_independent_witness:
  "\<exists>c s'. NimbleOptiList_DeepCopy cell_lib (Some shared_list) shared_store = (Some c, s') \<and>
     read_list cell_view s' c = read_list cell_view shared_store shared_list \<and>
     read_list cell_view (s'\<lparr>conditions := (conditions s')[0 := [''Gone'', ''Gone'']]\<rparr>) c =
       read_list cell_view shared_store shared_list"
proof -
  obtain c s' where copy: "NimbleOptiList_DeepCopy cell_lib (Some shared_list) shared_store = (Some c, s')"
    using shared_list_copy(1) by (metis prod.collapse)
  have "only_old_written shared_store s' (s'\<lparr>conditions := (conditions s')[0 := [''Gone'', ''Gone'']]\<rparr>)"
    by (auto simp: only_old_written_def same_arrays_def shared_store_def nth_list_update)
  with deep_copy_independent [OF cell_lib_copies shared_list_ok copy] copy show ?thesis by blast
qed

end
