(* ===== verification/ConfigEnv.thy ===== *)
theory ConfigEnv
  imports GoStrings
begin

text \<open>
  \<open>cronjob/configenv/config.go\<close>: the configuration of the cron job, read from environment
  variables and validated. The environment is a map from names to values.
\<close>

section \<open>Loading and validating\<close>

type_synonym env = "string \<rightharpoonup> string"

record ConfigEnv =
  RunMode :: string
  LogOutput :: string
  RenewalThreshold :: i64
  RemovalDelay :: i64
  AdminUserPermission :: bool

definition getEnv :: "env \<Rightarrow> string \<Rightarrow> string \<Rightarrow> string" where
  "getEnv env key defaultValue = (case env key of Some value \<Rightarrow> value | None \<Rightarrow> defaultValue)"

definition getEnvAsInt :: "env \<Rightarrow> string \<Rightarrow> i64 \<Rightarrow> i64" where
  "getEnvAsInt env key defaultValue =
     (let valueStr = getEnv env key []
      in case atoi valueStr of Inr value \<Rightarrow> value | Inl err \<Rightarrow> defaultValue)"

definition validate :: "ConfigEnv \<Rightarrow> go_error option" where
  "validate cfg =
     (if RunMode cfg \<noteq> ''dev'' \<and> RunMode cfg \<noteq> ''prod''
      then Some (NewErr (''RUN_MODE must be either 'dev' or 'prod'' @ [CHR 0x27]))
      else if LogOutput cfg \<noteq> ''console'' \<and> LogOutput cfg \<noteq> ''json''
      then Some (NewErr (''LOG_OUTPUT must be either 'console' or 'json'' @ [CHR 0x27]))
      else if sint (RenewalThreshold cfg) \<le> 0
      then Some (NewErr ''CERTIFICATE_RENEWAL_THRESHOLD must be a positive number'')
      else if sint (RemovalDelay cfg) \<le> 0
      then Some (NewErr ''ANNOTATION_REMOVAL_DELAY must be a positive number'')
      else if AdminUserPermission cfg \<noteq> True \<and> AdminUserPermission cfg \<noteq> False
      then Some (NewErr ''ADMIN_USER_PERMISSION must be a boolean'')
      else None)"

definition LoadConfig :: "env \<Rightarrow> go_error + ConfigEnv" where
  "LoadConfig env =
     (let cfg = \<lparr>RunMode = getEnv env ''RUN_MODE'' ''dev'',
                 LogOutput = getEnv env ''LOG_OUTPUT'' ''console'',
                 RenewalThreshold = getEnvAsInt env ''CERTIFICATE_RENEWAL_THRESHOLD'' 60,
                 RemovalDelay = getEnvAsInt env ''ANNOTATION_REMOVAL_DELAY'' 30,
                 AdminUserPermission = getEnv env ''ADMIN_USER_PERMISSION'' ''false'' = ''true''\<rparr>
      in case validate cfg of Some err \<Rightarrow> Inl err | None \<Rightarrow> Inr cfg)"

section \<open>What a loaded configuration satisfies\<close>

definition config_ok :: "ConfigEnv \<Rightarrow> bool" where
  "config_ok cfg \<longleftrightarrow> RunMode cfg \<in> {''dev'', ''prod''} \<and> LogOutput cfg \<in> {''console'', ''json''} \<and>
     0 < sint (RenewalThreshold cfg) \<and> 0 < sint (RemovalDelay cfg)"

lemma validate_None_iff: "validate cfg = None \<longleftrightarrow> config_ok cfg"
  by (auto simp: validate_def config_ok_def)

lemma LoadConfig_ok: "LoadConfig env = Inr cfg \<Longrightarrow> config_ok cfg"
  by (auto simp: LoadConfig_def Let_def validate_None_iff split: option.splits)

text \<open>
  A configuration as the environment that describes it, for the round trip: its numbers are
  written in decimal.
\<close>

definition env_of :: "ConfigEnv \<Rightarrow> env" where
  "env_of cfg = [''RUN_MODE'' \<mapsto> RunMode cfg, ''LOG_OUTPUT'' \<mapsto> LogOutput cfg,
     ''CERTIFICATE_RENEWAL_THRESHOLD'' \<mapsto> itoa (RenewalThreshold cfg),
     ''ANNOTATION_REMOVAL_DELAY'' \<mapsto> itoa (RemovalDelay cfg),
     ''ADMIN_USER_PERMISSION'' \<mapsto> (if AdminUserPermission cfg then ''true'' else ''false'')]"

section \<open>Properties\<close>

text \<open>
  Every configuration that loads has a known run mode and log output, and a threshold and a
  delay greater than zero, whatever the environment holds.
\<close>

lemma loaded_config_is_valid:
  assumes "LoadConfig env = Inr cfg"
  shows "(RunMode cfg = ''dev'' \<or> RunMode cfg = ''prod'') \<and>
     (LogOutput cfg = ''console'' \<or> LogOutput cfg = ''json'') \<and>
     0 < sint (RenewalThreshold cfg) \<and> 0 < sint (RemovalDelay cfg)"
  using LoadConfig_ok [OF assms] by (simp add: config_ok_def)

text \<open>
  C38. Round trip: every valid configuration is what loading the environment that describes it
  gives, and an environment that describes an invalid one does not load.
\<close>

theorem LoadConfig_roundtrip:
  "LoadConfig (env_of cfg) = (case validate cfg of None \<Rightarrow> Inr cfg | Some err \<Rightarrow> Inl err)"
proof -
  have fields: "getEnv (env_of cfg) ''RUN_MODE'' ''dev'' = RunMode cfg"
    "getEnv (env_of cfg) ''LOG_OUTPUT'' ''console'' = LogOutput cfg"
    "getEnvAsInt (env_of cfg) ''CERTIFICATE_RENEWAL_THRESHOLD'' 60 = RenewalThreshold cfg"
    "getEnvAsInt (env_of cfg) ''ANNOTATION_REMOVAL_DELAY'' 30 = RemovalDelay cfg"
    "(getEnv (env_of cfg) ''ADMIN_USER_PERMISSION'' ''false'' = ''true'') = AdminUserPermission cfg"
    by (simp_all add: getEnv_def getEnvAsInt_def env_of_def atoi_itoa)
  have eta: "\<lparr>RunMode = RunMode cfg, LogOutput = LogOutput cfg, RenewalThreshold = RenewalThreshold cfg,
      RemovalDelay = RemovalDelay cfg, AdminUserPermission = AdminUserPermission cfg\<rparr> = cfg"
    by (cases cfg) simp
  show ?thesis unfolding LoadConfig_def Let_def fields eta by (rule refl)
qed

text \<open>
  A number that is missing, malformed or outside the 64-bit range is replaced by the default
  without an error, so that a mistyped threshold goes unnoticed.
\<close>

lemma getEnvAsInt_falls_back:
  "getEnvAsInt env key d = d \<or>
     (\<exists>v. env key = Some v \<and> atoi v = Inr (getEnvAsInt env key d))"
  by (cases "env key")
     (auto simp: getEnvAsInt_def getEnv_def atoi_def parse_uint_def split: sum.split)

end
