(* ===== verification/CronWatcher.thy ===== *)
theory CronWatcher
  imports RenewalRound Challenge ConfigEnv Renewal SecretNames
begin

text \<open>
  \<open>cronjob/internal/ingresswatcher\<close>: the cron job's own copies of the annotation operations,
  the scans and the polling loop, and its round of a renewal. The copies are shown to behave as the
  operator's, so that the same contracts hold for them; the rounds differ in their verdict.
\<close>

section \<open>Annotations\<close>

definition cron_removeHTTPSAnnotation ::
  "'w client \<Rightarrow> ctx \<Rightarrow> Ingress \<Rightarrow> (('w, 'x) base_scheme, go_error option \<times> Ingress) prog" where
  "cron_removeHTTPSAnnotation c ctx ing =
     (let key = IngressKey ing in
      bindP (tryLockP key) (\<lambda>isLock.
        if isLock then
          bindP (call (getIngress c ctx (Namespace ing) (Name ing))) (\<lambda>got.
            case got of
              Inl err \<Rightarrow> ret (Some (ApiErr err), ing)
            | Inr ing1 \<Rightarrow>
                let ing2 = ing1\<lparr>Annotations := map_option
                      (\<lambda>m. m(''nginx.ingress.kubernetes.io/backend-protocol'' := None)) (Annotations ing1)\<rparr>
                in bindP (call (updateIngress c ctx ing2)) (\<lambda>updated.
                     bindP (unlockP key) (\<lambda>_.
                       case updated of
                         Inl err \<Rightarrow> ret (Some (ApiErr err), ing2)
                       | Inr ing3 \<Rightarrow> ret (None, ing3))))
        else
          ret (Some (NewErr (''key '' @ key @ '' is locked, and it should be unlocked'')), ing)))"

definition cron_addHTTPSAnnotation ::
  "'w client \<Rightarrow> ctx \<Rightarrow> Ingress \<Rightarrow> (('w, 'x) base_scheme, go_error option \<times> Ingress) prog" where
  "cron_addHTTPSAnnotation c ctx ing =
     (let key = IngressKey ing in
      bindP (tryLockP key) (\<lambda>isLock.
        if isLock then
          bindP (call (getIngress c ctx (Namespace ing) (Name ing))) (\<lambda>got.
            case got of
              Inl err \<Rightarrow> ret (Some (ApiErr err), ing)
            | Inr ing1 \<Rightarrow>
                let m = (case Annotations ing1 of None \<Rightarrow> Map.empty | Some m \<Rightarrow> m);
                    ing2 = ing1\<lparr>Annotations := Some
                      (m(''nginx.ingress.kubernetes.io/backend-protocol'' \<mapsto> ''HTTPS''))\<rparr>
                in bindP (call (updateIngress c ctx ing2)) (\<lambda>updated.
                     bindP (unlockP key) (\<lambda>_.
                       case updated of
                         Inl err \<Rightarrow> ret (Some (ApiErr err), ing2)
                       | Inr ing3 \<Rightarrow> ret (None, ing3))))
        else
          ret (Some (NewErr (''key '' @ key @ '' is locked, and should be unlocked'')), ing)))"

lemma cron_annotations_eq:
  "cron_removeHTTPSAnnotation = removeHTTPSAnnotation"
  "cron_addHTTPSAnnotation = addHTTPSAnnotation"
  by (intro ext, simp only: cron_removeHTTPSAnnotation_def removeHTTPSAnnotation_def
        cron_addHTTPSAnnotation_def addHTTPSAnnotation_def backendProtocol_def)+

section \<open>Scans\<close>

definition cron_isAcmeChallengePath :: "string \<Rightarrow> bool" where
  "cron_isAcmeChallengePath p = contains p ''.well-known/acme-challenge''"

fun cron_any_acme_path :: "HTTPIngressPath list \<Rightarrow> bool" where
  "cron_any_acme_path [] = False"
| "cron_any_acme_path (p # ps) = (if cron_isAcmeChallengePath (Path p) then True else cron_any_acme_path ps)"

fun cron_any_acme_rule :: "IngressRule list \<Rightarrow> bool outcome" where
  "cron_any_acme_rule [] = Ret False"
| "cron_any_acme_rule (r # rs) =
     (case HTTP r of
        None \<Rightarrow> Panic NilDereference
      | Some v \<Rightarrow> if cron_any_acme_path (elems (Paths v)) then Ret True else cron_any_acme_rule rs)"

definition cron_isContainsAcmeChallenge :: "Ingress \<Rightarrow> bool outcome" where
  "cron_isContainsAcmeChallenge ing = cron_any_acme_rule (elems (Rules ing))"

fun cron_scan_paths :: "HTTPIngressPath list \<Rightarrow> bool \<Rightarrow> bool" where
  "cron_scan_paths [] found = found"
| "cron_scan_paths (p # ps) found =
     (if contains (Path p) ''.well-known/acme-challenge'' then True else cron_scan_paths ps found)"

fun cron_scan_rules :: "IngressRule list \<Rightarrow> bool \<Rightarrow> bool outcome" where
  "cron_scan_rules [] found = Ret found"
| "cron_scan_rules (r # rs) found =
     (case HTTP r of
        None \<Rightarrow> Panic NilDereference
      | Some v \<Rightarrow>
          (let found' = cron_scan_paths (elems (Paths v)) found
           in if found' then Ret found' else cron_scan_rules rs found'))"

definition cron_challengePathFound :: "Ingress \<Rightarrow> bool outcome" where
  "cron_challengePathFound ing = cron_scan_rules (elems (Rules ing)) False"

lemma cron_path_eq: "cron_any_acme_path ps = any_acme_path ps"
  by (induction ps) (simp_all add: cron_isAcmeChallengePath_def isAcmeChallengePath_def)

lemma cron_scan_paths_eq: "cron_scan_paths ps found = scan_paths ps found"
  by (induction ps) simp_all

lemma cron_rule_eq: "cron_any_acme_rule rs = any_acme_rule rs"
  by (induction rs) (simp_all add: cron_path_eq split: option.split)

lemma cron_scan_rules_eq: "cron_scan_rules rs found = scan_rules rs found"
  by (induction rs arbitrary: found) (simp_all add: cron_scan_paths_eq Let_def split: option.split)

lemma cron_scans_eq:
  "cron_isContainsAcmeChallenge = isContainsAcmeChallenge"
  "cron_challengePathFound = challengePathFound"
  by (intro ext, simp add: cron_isContainsAcmeChallenge_def isContainsAcmeChallenge_def cron_rule_eq
        cron_challengePathFound_def challengePathFound_def cron_scan_rules_eq)+

interpretation cron_scan: challenge_scan cron_isContainsAcmeChallenge
  unfolding cron_scans_eq by (rule contains_scan.challenge_scan_axioms)

section \<open>Polling\<close>

definition cron_absence_body ::
  "'w client \<Rightarrow> duration \<Rightarrow> time \<Rightarrow> ctx \<Rightarrow> string \<Rightarrow> string \<Rightarrow> ('w, 'x) base_scheme \<Rightarrow>
   ((duration \<times> go_error option) outcome \<times> ('w, 'x) base_scheme) + ('w, 'x) base_scheme" where
  "cron_absence_body c timeout startTime timeoutCtx ns n s =
     (if ctxDone timeoutCtx (now c (world s)) then Inl (Ret (timeout * 2, None), s)
      else case getIngress c timeoutCtx ns n (world s) of
        (Inl err, w) \<Rightarrow> Inl (Ret (time_sub (now c w) startTime, Some (ApiErr err)), s\<lparr>world := w\<rparr>)
      | (Inr ingress, w) \<Rightarrow>
          (case cron_challengePathFound ingress of
             Panic p \<Rightarrow> Inl (Panic p, s\<lparr>world := w\<rparr>)
           | Ret pathFound \<Rightarrow>
               if \<not> pathFound then Inl (Ret (time_sub (now c w) startTime, None), s\<lparr>world := w\<rparr>)
               else Inr (s\<lparr>world := sleep c second w\<rparr>)))"

definition cron_waitForChallengeAbsence ::
  "'w client \<Rightarrow> ctx \<Rightarrow> duration \<Rightarrow> string \<Rightarrow> string \<Rightarrow>
   (('w, 'x) base_scheme, duration \<times> go_error option) prog" where
  "cron_waitForChallengeAbsence c ctx timeout ns n s =
     (let startTime = now c (world s);
          timeoutCtx = withTimeout ctx (now c (world s)) timeout
      in for_loop (cron_absence_body c timeout startTime timeoutCtx ns n) s)"

lemma cron_body_eq: "cron_absence_body = absence_body"
  by (intro ext) (simp only: cron_absence_body_def absence_body_def cron_scans_eq)

lemma cron_wait_eq: "cron_waitForChallengeAbsence = waitForChallengeAbsence"
  by (intro ext) (simp only: cron_waitForChallengeAbsence_def waitForChallengeAbsence_def cron_body_eq)

section \<open>One round\<close>

definition startCertificateRenewalAudit ::
  "'w client \<Rightarrow> ConfigEnv \<Rightarrow> ctx \<Rightarrow> Ingress \<Rightarrow> ('w base, bool \<times> go_error option \<times> Ingress) prog" where
  "startCertificateRenewalAudit c cfg ctx ing =
     bindP (cron_removeHTTPSAnnotation c ctx ing) (\<lambda>(err, ing1).
       case err of
         Some e \<Rightarrow> ret (False, Some e, ing1)
       | None \<Rightarrow>
           let timeout = RemovalDelay cfg * second in
           bindP (cron_waitForChallengeAbsence c ctx timeout (Namespace ing1) (Name ing1)) (\<lambda>(successTime, err).
             case err of
               Some e \<Rightarrow> ret (False, Some e, ing1)
             | None \<Rightarrow>
                 let isRenew = (if sint successTime > sint timeout then False else True) in
                 bindP (cron_addHTTPSAnnotation c ctx ing1) (\<lambda>(err, ing2).
                   case err of
                     Some e \<Rightarrow> ret (isRenew, Some e, ing2)
                   | None \<Rightarrow> ret (isRenew, None, ing2))))"

definition cron_timeout :: "ConfigEnv \<Rightarrow> duration" where
  "cron_timeout cfg = RemovalDelay cfg * second"

definition cron_renewed :: "duration \<Rightarrow> duration \<Rightarrow> bool" where
  "cron_renewed timeout d \<longleftrightarrow> sint d \<le> sint timeout"

definition no_effect :: "duration \<Rightarrow> duration \<Rightarrow> 'w base \<Rightarrow> 'w base" where
  "no_effect timeout d s = s"

lemma no_effect_id [simp]: "no_effect t d s = s"
  by (simp add: no_effect_def)

lemma startCertificateRenewalAudit_early:
  "removeHTTPSAnnotation c ctx ing s = Some (Ret (Some e, ing1), s1) \<Longrightarrow>
     startCertificateRenewalAudit c cfg ctx ing s = Some (Ret (False, Some e, ing1), s1)"
  "removeHTTPSAnnotation c ctx ing s = Some (Ret (None, ing1), s1) \<Longrightarrow>
     waitForChallengeAbsence c ctx (cron_timeout cfg) (Namespace ing1) (Name ing1) s1 = Some (Panic p, s2) \<Longrightarrow>
     startCertificateRenewalAudit c cfg ctx ing s = Some (Panic p, s2)"
  "removeHTTPSAnnotation c ctx ing s = Some (Ret (None, ing1), s1) \<Longrightarrow>
     waitForChallengeAbsence c ctx (cron_timeout cfg) (Namespace ing1) (Name ing1) s1 =
       Some (Ret (d, Some e), s2) \<Longrightarrow>
     startCertificateRenewalAudit c cfg ctx ing s = Some (Ret (False, Some e, ing1), s2)"
  "removeHTTPSAnnotation c ctx ing s = Some (Ret (None, ing1), s1) \<Longrightarrow>
     waitForChallengeAbsence c ctx (cron_timeout cfg) (Namespace ing1) (Name ing1) s1 = None \<Longrightarrow>
     startCertificateRenewalAudit c cfg ctx ing s = None"
  by (simp_all add: startCertificateRenewalAudit_def cron_timeout_def Let_def cron_annotations_eq cron_wait_eq)

lemma startCertificateRenewalAudit_after_wait:
  "removeHTTPSAnnotation c ctx ing s = Some (Ret (None, ing1), s1) \<Longrightarrow>
   waitForChallengeAbsence c ctx (cron_timeout cfg) (Namespace ing1) (Name ing1) s1 =
     Some (Ret (d, None), s2) \<Longrightarrow>
   addHTTPSAnnotation c ctx ing1 s2 = Some (Ret (e, ing2), s3) \<Longrightarrow>
   startCertificateRenewalAudit c cfg ctx ing s = Some (Ret (cron_renewed (cron_timeout cfg) d, e, ing2), s3)"
  by (auto simp: startCertificateRenewalAudit_def cron_timeout_def Let_def cron_annotations_eq cron_wait_eq
      cron_renewed_def split: option.split)

interpretation cron_round: renewal_round cron_removeHTTPSAnnotation without_https remove_refusal
  cron_addHTTPSAnnotation with_https add_refusal cron_waitForChallengeAbsence
  "\<lambda>c ctx cfg ing. startCertificateRenewalAudit c cfg ctx ing" cron_timeout
  cron_renewed no_effect no_effect
  unfolding cron_annotations_eq cron_wait_eq
  by unfold_locales
     (simp_all add: startCertificateRenewalAudit_early startCertificateRenewalAudit_after_wait
        split: option.split)

section \<open>Example\<close>

definition ten_second_config :: ConfigEnv where
  "ten_second_config = \<lparr>RunMode = ''dev'', LogOutput = ''console'', RenewalThreshold = 60,
     RemovalDelay = 10, AdminUserPermission = False\<rparr>"

definition cron_solved :: "cluster base" where
  "cron_solved = start_state\<lparr>world := small_cluster\<lparr>solver := 1500000\<rparr>\<rparr>"

lemma cron_solved_mutex: "mutex_ok cron_solved" "held_names cron_solved = {}"
  by (simp_all add: cron_solved_def)

lemma cron_solved_run:
  "\<exists>ing' s'. startCertificateRenewalAudit fake ten_second_config background example_ingress cron_solved =
     Some (Ret (True, None, ing'), s')"
proof -
  have t: "RemovalDelay ten_second_config * second = 10000000000"
    by (simp add: ten_second_config_def second_def)
  show ?thesis
    unfolding startCertificateRenewalAudit_def t cron_annotations_eq cron_wait_eq
    by (simp add: removeHTTPSAnnotation_def addHTTPSAnnotation_def waitForChallengeAbsence_def
        absence_body_def for_loop_exit fake_simps cron_solved_def Let_def nm_defs
        IngressKey_def example_ingress_def withTimeout_def challengePathFound_def time_sub_def)
qed

section \<open>Properties\<close>

text \<open>
  C22. The cron job's copies agree with the operator's code: both annotation operations, both scans
  and the polling loop give the same result and the same state on every input.
\<close>

theorem cron_copies_agree:
  "cron_removeHTTPSAnnotation c ctx ing s = removeHTTPSAnnotation c ctx ing s \<and>
   cron_addHTTPSAnnotation c ctx ing s = addHTTPSAnnotation c ctx ing s \<and>
   cron_isContainsAcmeChallenge ing = isContainsAcmeChallenge ing \<and>
   cron_waitForChallengeAbsence c ctx timeout ns n s = waitForChallengeAbsence c ctx timeout ns n s"
  by (simp only: cron_annotations_eq cron_scans_eq cron_wait_eq simp_thms)

text \<open>
  C13. For delays of up to 4611686018 seconds the cron job reports a renewal only after it has
  fetched, during the wait, a version of the Ingress without any challenge path, and then it has
  also put the annotation back. One second more and the doubled timeout wraps to a negative
  duration, so that running into the timeout counts as a renewal.
\<close>

theorem cron_reported_renewal_saw_challenge_gone:
  assumes "mutex_ok s" and "startCertificateRenewalAudit c cfg ctx ing s = Some (Ret (True, None, ing'), s')"
    and "0 < sint (RemovalDelay cfg)" and "sint (RemovalDelay cfg) \<le> 4611686018"
  shows "\<exists>ing1 s1 d s2 tctx v last last2 w. cron_removeHTTPSAnnotation c ctx ing s = Some (Ret (None, ing1), s1) \<and>
     cron_waitForChallengeAbsence c ctx (RemovalDelay cfg * second) (Namespace ing1) (Name ing1) s1 =
       Some (Ret (d, None), s2) \<and>
     getIngress c tctx (Namespace ing1) (Name ing1) v = (Inr last, world s2) \<and> \<not> has_challenge last \<and>
     getIngress c ctx (Namespace ing1) (Name ing1) (world s2) = (Inr last2, w) \<and>
     updateIngress c ctx (last2\<lparr>Annotations := with_https (Annotations last2)\<rparr>) w = (Inr ing', world s') \<and>
     held_names s' = held_names s"
proof -
  obtain ing1 :: Ingress and s1 d s2 last2 w where
    rem: "cron_removeHTTPSAnnotation c ctx ing s = Some (Ret (None, ing1), s1)"
    and wait: "cron_waitForChallengeAbsence c ctx (cron_timeout cfg) (Namespace ing1) (Name ing1) s1 =
      Some (Ret (d, None), s2)" and d: "True = cron_renewed (cron_timeout cfg) d"
    and put: "getIngress c ctx (Namespace ing1) (Name ing1) (world s2) = (Inr last2, w)"
      "updateIngress c ctx (last2\<lparr>Annotations := with_https (Annotations last2)\<rparr>) w = (Inr ing', world s')"
      "held_names s' = held_names s"
    by (rule cron_round.renew_success [OF assms(1,2)]) blast
  have t: "sint (cron_timeout cfg) = sint (RemovalDelay cfg) * 1000000000"
    using sint_mult_64 [of "RemovalDelay cfg" second] assms(3,4) by (simp add: cron_timeout_def)
  have "sint (cron_timeout cfg * 2) = sint (cron_timeout cfg) * 2"
    using sint_mult_64 [of "cron_timeout cfg" 2] assms(3,4) by (simp add: t)
  then have "d \<noteq> cron_timeout cfg * 2"
    using d t assms(3) by (auto simp: cron_renewed_def)
  from cron_round.wait_absent [OF wait this] rem wait put show ?thesis
    unfolding cron_timeout_def by blast
qed

theorem cron_reported_renewal_saw_challenge_gone_witness:
  "\<exists>tctx ns n v last w. getIngress fake tctx ns n v = (Inr last, w) \<and> \<not> has_challenge last"
proof -
  obtain ing' s' where run: "startCertificateRenewalAudit fake ten_second_config background example_ingress
      cron_solved = Some (Ret (True, None, ing'), s')" using cron_solved_run by blast
  have "0 < sint (RemovalDelay ten_second_config)" "sint (RemovalDelay ten_second_config) \<le> 4611686018"
    by (simp_all add: ten_second_config_def)
  from cron_reported_renewal_saw_challenge_gone [OF cron_solved_mutex(1) run this] show ?thesis by blast
qed

text \<open>The wrap-around: a timed-out wait passes the cron job's test for success.\<close>

lemma cron_timeout_wraps:
  assumes "RemovalDelay cfg = 4611686019"
  shows "cron_renewed (cron_timeout cfg) (cron_timeout cfg * 2)"
  by (simp add: cron_renewed_def cron_timeout_def assms second_def)

end
