(* ===== verification/CronAudit.thy ===== *)
theory CronAudit
  imports CronWatcher
begin

text \<open>
  The audit of the cron job: \<open>cronjob/internal/ingresswatcher/ingresswatcher.go\<close> and the parts
  of \<open>challenge.go\<close> only it uses. The counters of the audit, which the code logs at the end, are
  part of its result here.
\<close>

section \<open>Expiry, secrets\<close>

definition timeRemainingCertificateUpToRenewal ::
  "'w client \<Rightarrow> ctx \<Rightarrow> Ingress \<Rightarrow> ('w base, duration \<times> string \<times> go_error option) prog" where
  "timeRemainingCertificateUpToRenewal c ctx ing =
     (case TLS ing of
        [] \<Rightarrow> ret (0, [], None)
      | tlsSpec # _ \<Rightarrow>
          (let secretName = SecretName tlsSpec in
           bindP (call (getSecretData c ctx (Namespace ing) secretName)) (\<lambda>secret.
             case secret of
               Inl err \<Rightarrow> ret (0, secretName, Some (ApiErr err))
             | Inr data \<Rightarrow>
                 (case certificateNotAfter c data of
                    Inl e \<Rightarrow> ret (0, secretName, Some e)
                  | Inr notAfter \<Rightarrow>
                      bindP (nowP c) (\<lambda>t. ret (time_sub notAfter t, secretName, None))))))"

definition deleteIngressSecret ::
  "'w client \<Rightarrow> ctx \<Rightarrow> string \<Rightarrow> string \<Rightarrow> ('w base, go_error option) prog" where
  "deleteIngressSecret c ctx secretName secretNamespace =
     bindP (call (deleteSecret c ctx secretNamespace secretName)) (\<lambda>deleted.
       case deleted of Some err \<Rightarrow> ret (Some (ApiErr err)) | None \<Rightarrow> ret None)"

section \<open>Changing the secret of an Ingress\<close>

text \<open>
  The loop over the TLS entries: the first entry with the given name gets the next name, and its
  index is kept; without such an entry the index stays 0.
\<close>

fun rename_first :: "nat \<Rightarrow> string \<Rightarrow> IngressTLS list \<Rightarrow> go_error + (nat \<times> IngressTLS list)" where
  "rename_first i secretName [] = Inr (0, [])"
| "rename_first i secretName (t # ts) =
     (if SecretName t = secretName then
        (case ChangeSecretName secretName of
           Inl err \<Rightarrow> Inl err
         | Inr newSecretName \<Rightarrow> Inr (i, t\<lparr>SecretName := newSecretName\<rparr> # ts))
      else
        (case rename_first (Suc i) secretName ts of
           Inl err \<Rightarrow> Inl err
         | Inr (k, ts') \<Rightarrow> Inr (k, t # ts')))"

text \<open>
  The name logged after the update is read from the server's answer, at the index found before.
\<close>

definition changeIngressSecretName ::
  "'w client \<Rightarrow> ctx \<Rightarrow> Ingress \<Rightarrow> string \<Rightarrow> ('w base, go_error option \<times> Ingress) prog" where
  "changeIngressSecretName c ctx ing secretName =
     (case rename_first 0 secretName (TLS ing) of
        Inl err \<Rightarrow> ret (Some err, ing)
      | Inr (idxName, tls) \<Rightarrow>
          (let ing1 = ing\<lparr>TLS := tls\<rparr>;
               key = IngressKey ing1
           in bindP (tryLockP key) (\<lambda>isLock.
                if isLock then
                  bindP (call (updateIngress c ctx ing1)) (\<lambda>updated.
                    case updated of
                      Inl err \<Rightarrow> bindP (unlockP key) (\<lambda>_. ret (Some (ApiErr err), ing1))
                    | Inr ing2 \<Rightarrow>
                        bindP (unlockP key) (\<lambda>_.
                          if idxName < length (TLS ing2) then ret (None, ing2)
                          else panic IndexOutOfRange))
                else
                  ret (Some (NewErr (''key '' @ key @ '' is locked, and it should be unlocked'')), ing1))))"

section \<open>The watching variant of the wait\<close>

definition absence_new_body ::
  "'w client \<Rightarrow> watcher \<Rightarrow> time \<Rightarrow> ctx \<Rightarrow> time \<Rightarrow> 'w base \<Rightarrow>
   ((duration \<times> go_error option) outcome \<times> 'w base) + 'w base" where
  "absence_new_body c watcher timeoutCh ctx startTime s =
     (case selectWatch c watcher timeoutCh ctx (world s) of (event, w) \<Rightarrow>
        (let s1 = s\<lparr>world := w\<rparr>;
             since = time_sub (now c w) startTime in
        (case event of
           WatchClosed \<Rightarrow> Inl (Ret (since * 2, Some (NewErr ''watch channel closed'')), s1)
         | WatchEvent ty ob \<Rightarrow>
             if ty = Modified then
               (case ob of
                  ObjIngress ing \<Rightarrow>
                    (case cron_isContainsAcmeChallenge ing of
                       Panic p \<Rightarrow> Inl (Panic p, s1)
                     | Ret found \<Rightarrow> if \<not> found then Inl (Ret (since, None), s1) else Inr s1)
                | ObjOther \<Rightarrow> Inr s1)
             else Inr s1
         | TimerFired \<Rightarrow> Inl (Ret (since * 2, Some (NewErr ''Timeout reached. Stopping.'')), s1)
         | ContextDone \<Rightarrow> Inl (Ret (since * 2, Some CtxErr), s1))))"

definition waitForChallengeAbsenceNew ::
  "'w client \<Rightarrow> ctx \<Rightarrow> duration \<Rightarrow> string \<Rightarrow> string \<Rightarrow> ('w base, duration \<times> go_error option) prog" where
  "waitForChallengeAbsenceNew c ctx timeout ns ingName s =
     (let startTime = now c (world s) in
      case watchIngresses c ctx ns ingName (world s) of
        (Inl err, w) \<Rightarrow> Some (Ret (timeout * 2, Some (ApiErr err)), s\<lparr>world := w\<rparr>)
      | (Inr watcher, w) \<Rightarrow>
          (let timeoutCh = now c w + sint timeout in
           case for_loop (absence_new_body c watcher timeoutCh ctx startTime) (s\<lparr>world := w\<rparr>) of
             None \<Rightarrow> None
           | Some (r, s1) \<Rightarrow> Some (r, s1\<lparr>world := stopWatch c watcher (world s1)\<rparr>)))"

section \<open>The audit\<close>

fun cron_audit_items ::
  "'w client \<Rightarrow> ConfigEnv \<Rightarrow> ctx \<Rightarrow> Ingress list \<Rightarrow> nat \<Rightarrow> nat \<Rightarrow>
   ('w base, go_error option \<times> nat \<times> nat) prog" where
  "cron_audit_items c cfg ctx [] forRenewal renewed = ret (None, forRenewal, renewed)"
| "cron_audit_items c cfg ctx (ing # rest) forRenewal renewed =
     bindP (liftO (cron_isContainsAcmeChallenge ing)) (\<lambda>found.
       if found then
         bindP (startCertificateRenewalAudit c cfg ctx ing) (\<lambda>(isRenew, err, ing1).
           case err of
             Some e \<Rightarrow> ret (Some e, forRenewal + 1, renewed)
           | None \<Rightarrow>
               if \<not> isRenew then
                 (case TLS ing1 of
                    [] \<Rightarrow> panic IndexOutOfRange
                  | t # _ \<Rightarrow>
                      bindP (changeIngressSecretName c ctx ing1 (SecretName t)) (\<lambda>(err, ing2).
                        case err of
                          Some e \<Rightarrow> ret (Some e, forRenewal + 1, renewed)
                        | None \<Rightarrow>
                            bindP (startCertificateRenewalAudit c cfg ctx ing2) (\<lambda>(isSecond, err, ing3).
                              case err of
                                Some e \<Rightarrow> ret (Some e, forRenewal + 1, renewed)
                              | None \<Rightarrow>
                                  if \<not> isSecond then
                                    (case TLS ing3 of
                                       [] \<Rightarrow> panic IndexOutOfRange
                                     | _ # _ \<Rightarrow> cron_audit_items c cfg ctx rest (forRenewal + 1) renewed)
                                  else cron_audit_items c cfg ctx rest (forRenewal + 1) (renewed + 1))))
               else cron_audit_items c cfg ctx rest (forRenewal + 1) (renewed + 1))
       else if AdminUserPermission cfg then
         bindP (timeRemainingCertificateUpToRenewal c ctx ing) (\<lambda>(timeRemaining, secretName, err).
           case err of
             Some e \<Rightarrow> ret (Some e, forRenewal, renewed)
           | None \<Rightarrow>
               if within_threshold timeRemaining (RenewalThreshold cfg) then
                 bindP (deleteIngressSecret c ctx secretName (Namespace ing)) (\<lambda>err.
                   case err of
                     Some e \<Rightarrow> ret (Some e, forRenewal, renewed)
                   | None \<Rightarrow>
                       bindP (sleepP c (5 * second)) (\<lambda>_.
                         bindP (startCertificateRenewalAudit c cfg ctx ing) (\<lambda>(isRenew, err, ing1).
                           case err of
                             Some e \<Rightarrow> ret (Some e, forRenewal, renewed)
                           | None \<Rightarrow> cron_audit_items c cfg ctx rest forRenewal renewed)))
               else cron_audit_items c cfg ctx rest forRenewal renewed)
       else cron_audit_items c cfg ctx rest forRenewal renewed)"

definition AuditIngressResources ::
  "'w client \<Rightarrow> ConfigEnv \<Rightarrow> ctx \<Rightarrow> ('w base, go_error option \<times> nat \<times> nat) prog" where
  "AuditIngressResources c cfg ctx =
     bindP (call (listIngresses c ctx)) (\<lambda>got.
       case got of
         Inl err \<Rightarrow> ret (Some (ApiErr err), 0, 0)
       | Inr items \<Rightarrow> cron_audit_items c cfg ctx items 0 0)"

section \<open>Changing a secret, described\<close>

lemma rename_first_spec:
  "\<exists>k ts'. rename_first i n ts = Inr (k, ts') \<and> length ts' = length ts \<and>
     (if n \<in> set (map SecretName ts)
      then \<exists>j m. k = i + j \<and> j < length ts \<and> SecretName (ts ! j) = n \<and>
             (\<forall>l<j. SecretName (ts ! l) \<noteq> n) \<and>
             ChangeSecretName n = Inr m \<and> m \<noteq> n \<and> ts' = ts[j := (ts ! j)\<lparr>SecretName := m\<rparr>]
      else k = 0 \<and> ts' = ts)"
proof (induction ts arbitrary: i)
  case (Cons t ts)
  show ?case
  proof (cases "SecretName t = n")
    case True
    obtain m where m: "ChangeSecretName n = Inr m" "m \<noteq> n" by (rule secret.change_cases)
    then show ?thesis using True
      by (auto intro!: exI [of _ 0])
  next
    case False
    obtain k ts' where IH: "rename_first (Suc i) n ts = Inr (k, ts')" "length ts' = length ts"
      "if n \<in> set (map SecretName ts)
       then \<exists>j m. k = Suc i + j \<and> j < length ts \<and> SecretName (ts ! j) = n \<and>
             (\<forall>l<j. SecretName (ts ! l) \<noteq> n) \<and>
             ChangeSecretName n = Inr m \<and> m \<noteq> n \<and> ts' = ts[j := (ts ! j)\<lparr>SecretName := m\<rparr>]
       else k = 0 \<and> ts' = ts"
      using Cons.IH by blast
    show ?thesis
    proof (cases "n \<in> set (map SecretName ts)")
      case True
      with IH obtain j m where j: "k = Suc i + j" "j < length ts" "SecretName (ts ! j) = n"
        "\<forall>l<j. SecretName (ts ! l) \<noteq> n" "ChangeSecretName n = Inr m" "m \<noteq> n"
        "ts' = ts[j := (ts ! j)\<lparr>SecretName := m\<rparr>]" by auto
      have "\<forall>l<Suc j. SecretName ((t # ts) ! l) \<noteq> n"
        using False j(4) by (auto simp: less_Suc_eq_0_disj)
      then show ?thesis using False True IH(1,2) j by (auto intro!: exI [of _ "Suc j"])
    next
      case outside: False
      then show ?thesis using False IH by auto
    qed
  qed
qed simp

text \<open>
  Unlike the annotation operations, the change of a secret releases its lock on every way out, the
  panic of the log line included.
\<close>

lemma change_outcome:
  assumes ok: "mutex_ok s"
  obtains r w m where "changeIngressSecretName c ctx ing n s = Some (r, s\<lparr>world := w, auditMutex := m\<rparr>)"
    and "nm_inv m" and "nm_held m = held_names s"
proof -
  obtain k ts where re: "rename_first 0 n (TLS ing) = Inr (k, ts)"
    using rename_first_spec [of 0 n "TLS ing"] by blast
  show thesis
  proof (cases "IngressKey (ing\<lparr>TLS := ts\<rparr>) \<in> held_names s")
    case True
    have "changeIngressSecretName c ctx ing n s = Some (Ret (Some (NewErr (''key '' @
        IngressKey (ing\<lparr>TLS := ts\<rparr>) @ '' is locked, and it should be unlocked'')), ing\<lparr>TLS := ts\<rparr>), s)"
      using held_refuse [OF ok True] by (simp add: changeIngressSecretName_def re Let_def)
    then show thesis
      using that [of _ "auditMutex s" "world s"] ok by (simp add: mutex_ok_def held_names_def)
  next
    case False
    obtain m1 m2 where m: "TryLock (IngressKey (ing\<lparr>TLS := ts\<rparr>)) (auditMutex s) = (True, m1)"
      "Unlock (IngressKey (ing\<lparr>TLS := ts\<rparr>)) m1 = Some m2" "nm_inv m2" "nm_held m2 = held_names s"
      using held_acquire [OF ok False] by metis
    obtain upd w where "updateIngress c ctx (ing\<lparr>TLS := ts\<rparr>) (world s) = (upd, w)"
      by (cases "updateIngress c ctx (ing\<lparr>TLS := ts\<rparr>) (world s)")
    then have "\<exists>r. changeIngressSecretName c ctx ing n s = Some (r, s\<lparr>world := w, auditMutex := m2\<rparr>)"
      using m by (cases upd) (simp_all add: changeIngressSecretName_def re Let_def)
    then show thesis using that m by blast
  qed
qed

lemma change_keeps: "keeps mutex_ok (changeIngressSecretName c ctx ing n)"
proof (rule keepsI)
  fix s r s'
  assume ok: "mutex_ok s" and run: "changeIngressSecretName c ctx ing n s = Some (r, s')"
  obtain r' w m where "changeIngressSecretName c ctx ing n s = Some (r', s\<lparr>world := w, auditMutex := m\<rparr>)"
    and "nm_inv m" by (rule change_outcome [OF ok])
  with run show "mutex_ok s'" by (auto simp: mutex_ok_def)
qed

lemma change_success:
  assumes ok: "mutex_ok s" and run: "changeIngressSecretName c ctx ing n s = Some (Ret (None, ing'), s')"
  obtains k ts where "rename_first 0 n (TLS ing) = Inr (k, ts)"
    and "updateIngress c ctx (ing\<lparr>TLS := ts\<rparr>) (world s) = (Inr ing', world s')"
    and "held_names s' = held_names s"
proof -
  obtain k ts where re: "rename_first 0 n (TLS ing) = Inr (k, ts)"
    using rename_first_spec [of 0 n "TLS ing"] by blast
  have free: "IngressKey (ing\<lparr>TLS := ts\<rparr>) \<notin> held_names s"
    using run held_refuse [OF ok] by (auto simp: changeIngressSecretName_def re Let_def)
  obtain m1 m2 where m: "TryLock (IngressKey (ing\<lparr>TLS := ts\<rparr>)) (auditMutex s) = (True, m1)"
    "Unlock (IngressKey (ing\<lparr>TLS := ts\<rparr>)) m1 = Some m2" "nm_held m2 = held_names s"
    using held_acquire [OF ok free] by metis
  obtain upd w where upd: "updateIngress c ctx (ing\<lparr>TLS := ts\<rparr>) (world s) = (upd, w)"
    by (cases "updateIngress c ctx (ing\<lparr>TLS := ts\<rparr>) (world s)")
  from run m upd have "upd = Inr ing'" "s' = s\<lparr>world := w, auditMutex := m2\<rparr>"
    by (auto simp: changeIngressSecretName_def re Let_def split: sum.splits if_splits)
  with that [of k ts] re upd m show thesis by (simp add: held_names_def)
qed

section \<open>The audit returns\<close>

lemma cron_renewal_returns:
  assumes "clock_ok c"
  shows "returns_on mutex_ok (startCertificateRenewalAudit c cfg ctx ing)"
  using cron_round.renew_returns [OF assms]
  by (intro returns_onI [OF cron_round.renew_keeps_mutex]) blast

lemma change_returns: "returns_on mutex_ok (changeIngressSecretName c ctx ing n)"
proof (rule returns_onI [OF change_keeps])
  fix s :: "'a base"
  assume "mutex_ok s"
  then show "\<exists>r s'. changeIngressSecretName c ctx ing n s = Some (r, s')"
    by (rule change_outcome) blast
qed

lemma cron_call_returns: "returns_on mutex_ok (call f)"
  by (rule returns_onI [OF keeps_call]) (simp_all add: call_def split: prod.split)

lemma cron_time_returns:
  "returns_on mutex_ok (nowP c)" "returns_on mutex_ok (sleepP c d)"
  by (rule returns_onI; auto intro: keepsI)+

lemma remaining_returns: "returns_on mutex_ok (timeRemainingCertificateUpToRenewal c ctx ing)"
  unfolding timeRemainingCertificateUpToRenewal_def
  by (cases "TLS ing") (simp_all only: list.case, (intro returns_intros cron_call_returns cron_time_returns)+)

lemma delete_returns: "returns_on mutex_ok (deleteIngressSecret c ctx n ns)"
  unfolding deleteIngressSecret_def by (intro returns_intros cron_call_returns)

lemma returns_list:
  "returns_on I a \<Longrightarrow> (\<And>y ys. returns_on I (f y ys)) \<Longrightarrow>
   returns_on I (case xs of [] \<Rightarrow> a | y # ys \<Rightarrow> f y ys)"
  by (cases xs) simp_all

lemma cron_items_return:
  "clock_ok c \<Longrightarrow> returns_on mutex_ok (cron_audit_items c cfg ctx items n m)"
proof (induction items arbitrary: n m)
  case (Cons ing items)
  then show ?case
    unfolding cron_audit_items.simps
    by (intro returns_intros returns_list cron_renewal_returns change_returns remaining_returns
        delete_returns cron_time_returns)
next
  case Nil
  show ?case unfolding cron_audit_items.simps by (rule returns_ret)
qed

lemma cron_audit_return: "clock_ok c \<Longrightarrow> returns_on mutex_ok (AuditIngressResources c cfg ctx)"
  unfolding AuditIngressResources_def by (intro returns_intros cron_call_returns cron_items_return)

section \<open>Counting\<close>

lemma cron_items_counts:
  "cron_audit_items c cfg ctx items n m s = Some (Ret (e, n', m'), s') \<Longrightarrow>
     m' + n \<le> n' + m \<and> n \<le> n' \<and> m \<le> m' \<and> n' \<le> n + length items \<and>
     (e = None \<longrightarrow> n' = n + length (filter has_challenge items))"
proof (induction items arbitrary: n m s e)
  case (Cons ing items)
  show ?case
  proof (cases "cron_isContainsAcmeChallenge ing")
    case (Panic p)
    with Cons.prems show ?thesis by simp
  next
    case (Ret found)
    have found: "found = has_challenge ing" using cron_scan.scan_Ret [OF Ret] .
    show ?thesis
    proof (cases found)
      case True
      with Cons.prems Ret found show ?thesis
        by (auto elim!: bindP_RetE split: if_splits option.splits list.splits dest!: Cons.IH)
    next
      case False
      with Cons.prems Ret found show ?thesis
        by (auto elim!: bindP_RetE split: if_splits option.splits dest!: Cons.IH)
           (rule le_SucI, rule length_filter_le)+
    qed
  qed
qed simp

text \<open>
  How an audit without an error goes through its list. An Ingress with a challenge path gets a first
  attempt and, when that one does not renew it, a second one under the next secret name; the flag is
  the answer of the last attempt. Another Ingress is passed, with the check of its expiry.
\<close>

inductive item_renewed ::
  "'w client \<Rightarrow> ConfigEnv \<Rightarrow> ctx \<Rightarrow> Ingress \<Rightarrow> 'w base \<Rightarrow> bool \<Rightarrow> 'w base \<Rightarrow> bool" for c cfg ctx where
  at_first: "startCertificateRenewalAudit c cfg ctx ing s = Some (Ret (True, None, ing1), s1) \<Longrightarrow>
     item_renewed c cfg ctx ing s True s1"
| at_second: "startCertificateRenewalAudit c cfg ctx ing s = Some (Ret (False, None, ing1), s1) \<Longrightarrow>
     TLS ing1 = t # ts \<Longrightarrow>
     changeIngressSecretName c ctx ing1 (SecretName t) s1 = Some (Ret (None, ing2), s2) \<Longrightarrow>
     startCertificateRenewalAudit c cfg ctx ing2 s2 = Some (Ret (b, None, ing3), s3) \<Longrightarrow>
     item_renewed c cfg ctx ing s b s3"

inductive audit_run ::
  "'w client \<Rightarrow> ConfigEnv \<Rightarrow> ctx \<Rightarrow> Ingress list \<Rightarrow> 'w base \<Rightarrow> bool list \<Rightarrow> 'w base \<Rightarrow> bool" for c cfg ctx where
  run_end: "audit_run c cfg ctx [] s [] s"
| run_renewal: "has_challenge ing \<Longrightarrow> item_renewed c cfg ctx ing s b s1 \<Longrightarrow>
     audit_run c cfg ctx rest s1 bs s' \<Longrightarrow> audit_run c cfg ctx (ing # rest) s (b # bs) s'"
| run_passed: "\<not> has_challenge ing \<Longrightarrow>
     cron_audit_items c cfg ctx [ing] 0 0 s = Some (Ret (None, 0, 0), s1) \<Longrightarrow>
     audit_run c cfg ctx rest s1 bs s' \<Longrightarrow> audit_run c cfg ctx (ing # rest) s bs s'"

lemma audit_run_length: "audit_run c cfg ctx items s bs s' \<Longrightarrow> length bs = length (filter has_challenge items)"
  by (induction rule: audit_run.induct) simp_all

lemma cron_item_passed:
  assumes "cron_isContainsAcmeChallenge ing = Ret False"
    and "cron_audit_items c cfg ctx (ing # rest) n m s = Some (Ret (None, n', m'), s')"
  obtains s1 where "cron_audit_items c cfg ctx [ing] 0 0 s = Some (Ret (None, 0, 0), s1)"
    and "cron_audit_items c cfg ctx rest n m s1 = Some (Ret (None, n', m'), s')"
  using assms by (auto elim!: bindP_RetE split: if_splits option.splits)

lemma cron_item_renewed:
  assumes "cron_isContainsAcmeChallenge ing = Ret True"
    and "cron_audit_items c cfg ctx (ing # rest) n m s = Some (Ret (None, n', m'), s')"
  shows "(\<exists>s1. item_renewed c cfg ctx ing s True s1 \<and>
       cron_audit_items c cfg ctx rest (Suc n) (Suc m) s1 = Some (Ret (None, n', m'), s')) \<or>
     (\<exists>s1. item_renewed c cfg ctx ing s False s1 \<and>
       cron_audit_items c cfg ctx rest (Suc n) m s1 = Some (Ret (None, n', m'), s'))"
  using assms
  by (auto elim!: bindP_RetE split: if_splits option.splits list.splits)
     (blast intro: at_first at_second)+

lemma cron_items_run:
  "cron_audit_items c cfg ctx items n m s = Some (Ret (None, n', m'), s') \<Longrightarrow>
     \<exists>bs. audit_run c cfg ctx items s bs s' \<and> n' = n + length bs \<and> m' = m + count_list bs True"
proof (induction items arbitrary: n m s)
  case Nil
  then show ?case by (auto intro: run_end)
next
  case (Cons ing items)
  show ?case
  proof (cases "cron_isContainsAcmeChallenge ing")
    case (Panic p)
    with Cons.prems show ?thesis by simp
  next
    case (Ret found)
    note found = cron_scan.scan_Ret [OF Ret]
    show ?thesis
    proof (cases found)
      case True
      with cron_item_renewed [OF _ Cons.prems] Ret obtain b s1 where "item_renewed c cfg ctx ing s b s1"
        and rest: "cron_audit_items c cfg ctx items (Suc n) (if b then Suc m else m) s1 = Some (Ret (None, n', m'), s')"
        by (auto split: if_splits)
      moreover from Cons.IH [OF rest] obtain bs where "audit_run c cfg ctx items s1 bs s'"
        "n' = Suc n + length bs" "m' = (if b then Suc m else m) + count_list bs True" by blast
      ultimately show ?thesis using found True
        by (intro exI [of _ "b # bs"]) (auto intro: run_renewal)
    next
      case False
      then have "cron_isContainsAcmeChallenge ing = Ret False" using Ret by simp
      from cron_item_passed [OF this Cons.prems] obtain s1
        where "cron_audit_items c cfg ctx [ing] 0 0 s = Some (Ret (None, 0, 0), s1)"
        and rest: "cron_audit_items c cfg ctx items n m s1 = Some (Ret (None, n', m'), s')" .
      moreover from Cons.IH [OF rest] obtain bs where "audit_run c cfg ctx items s1 bs s'"
        "n' = n + length bs" "m' = m + count_list bs True" by blast
      ultimately show ?thesis using found False
        by (auto intro: run_passed simp del: cron_audit_items.simps)
    qed
  qed
qed

section \<open>Properties\<close>

text \<open>
  The audit of the cron job always returns, whatever the cluster answers, when sleeping takes
  time and no call moves the clock back.
\<close>

lemma AuditIngressResources_returns:
  assumes "clock_ok c" and "mutex_ok s"
  shows "\<exists>r s'. AuditIngressResources c cfg ctx s = Some (r, s')"
  using returns_onD [OF cron_audit_return [OF assms(1)] assms(2)] .

text \<open>
  C21. The counters of the audit. An audit that ends without an error has gone through every listed
  Ingress, and each one with a challenge path had its first attempt or, when that one did not renew
  it, a second one after a change of its secret name; one counter is exactly the number of these
  Ingress objects, the other exactly the number of them whose last attempt renewed it. Also when the
  audit ends early, at most as many are renewed as needed it, and at most as many as are listed.
\<close>

theorem audit_counters_exact:
  assumes "listIngresses c ctx (world s) = (Inr items, w)"
    and "AuditIngressResources c cfg ctx s = Some (Ret (e, forRenewal, renewed), s')"
  shows "renewed \<le> forRenewal \<and> forRenewal \<le> length items \<and>
     (e = None \<longrightarrow> (\<exists>bs. audit_run c cfg ctx items (s\<lparr>world := w\<rparr>) bs s' \<and>
        length bs = length (filter has_challenge items) \<and>
        forRenewal = length bs \<and> renewed = count_list bs True))"
proof -
  have run: "cron_audit_items c cfg ctx items 0 0 (s\<lparr>world := w\<rparr>) = Some (Ret (e, forRenewal, renewed), s')"
    using assms by (simp add: AuditIngressResources_def)
  from cron_items_counts [OF run] have "renewed \<le> forRenewal" "forRenewal \<le> length items" by simp_all
  moreover have "\<exists>bs. audit_run c cfg ctx items (s\<lparr>world := w\<rparr>) bs s' \<and>
      length bs = length (filter has_challenge items) \<and> forRenewal = length bs \<and> renewed = count_list bs True"
    if "e = None"
    using cron_items_run [OF run [unfolded that]] by (auto simp: audit_run_length)
  ultimately show ?thesis by blast
qed

text \<open>Two listed Ingress objects, of which one has a challenge path and is renewed.\<close>

definition two_listed :: "cluster base" where
  "two_listed = cron_solved\<lparr>world := small_cluster\<lparr>solver := 1500000,
     ings := [(''shop'', ''web'') \<mapsto> example_ingress,
              (''shop'', ''plain'') \<mapsto> example_ingress\<lparr>Name := ''plain'', Rules := None\<rparr>],
     listed := [(''shop'', ''web''), (''shop'', ''plain'')]\<rparr>\<rparr>"

lemma two_listed_run:
  "\<exists>ing' s'. startCertificateRenewalAudit fake ten_second_config background example_ingress
      (two_listed\<lparr>world := tick (world two_listed)\<rparr>) = Some (Ret (True, None, ing'), s')"
proof -
  have t: "RemovalDelay ten_second_config * second = 10000000000"
    by (simp add: ten_second_config_def second_def)
  show ?thesis
    unfolding startCertificateRenewalAudit_def t cron_annotations_eq cron_wait_eq
    by (simp add: removeHTTPSAnnotation_def addHTTPSAnnotation_def waitForChallengeAbsence_def
        absence_body_def for_loop_exit fake_simps two_listed_def cron_solved_def Let_def nm_defs
        IngressKey_def example_ingress_def withTimeout_def challengePathFound_def time_sub_def)
qed

theorem audit_counters_exact_witness:
  "\<exists>items w s'. listIngresses fake background (world two_listed) = (Inr items, w) \<and> length items = 2 \<and>
     AuditIngressResources fake ten_second_config background two_listed = Some (Ret (None, 1, 1), s') \<and>
     audit_run fake ten_second_config background items (two_listed\<lparr>world := w\<rparr>) [True] s'"
proof -
  let ?w = "tick (world two_listed)"
  let ?plain = "example_ingress\<lparr>Name := ''plain'', Rules := None\<rparr>"
  have list: "listIngresses fake background (world two_listed) = (Inr [example_ingress, ?plain], ?w)"
    by (simp add: fake_simps two_listed_def List.map_filter_def)
  obtain ing' s' where first: "startCertificateRenewalAudit fake ten_second_config background example_ingress
      (two_listed\<lparr>world := ?w\<rparr>) = Some (Ret (True, None, ing'), s')" using two_listed_run by blast
  have scans: "cron_isContainsAcmeChallenge example_ingress = Ret True"
    "cron_isContainsAcmeChallenge ?plain = Ret False"
    using example_scan by (simp_all add: cron_scan.scan_first)
  have run: "AuditIngressResources fake ten_second_config background two_listed = Some (Ret (None, 1, 1), s')"
    using list first scans by (simp add: AuditIngressResources_def ten_second_config_def)
  from audit_counters_exact [OF list run] obtain bs where
    "audit_run fake ten_second_config background [example_ingress, ?plain] (two_listed\<lparr>world := ?w\<rparr>) bs s'"
    "1 = length bs" "1 = count_list bs True" by auto
  moreover from this(2,3) have "bs = [True]" by (cases bs) (auto split: if_splits)
  ultimately show ?thesis using run list by auto
qed

text \<open>
  C16. A change of the secret name that succeeds sends the Ingress with exactly one difference: the
  first TLS entry with the old name carries the next name, which differs from the old one. Nothing
  else of the Ingress changes, and the locks are as before.
\<close>

theorem changeIngressSecretName_renames_one:
  assumes "mutex_ok s" and "changeIngressSecretName c ctx ing n s = Some (Ret (None, ing'), s')"
    and "n \<in> set (map SecretName (TLS ing))"
  shows "\<exists>sent j m. updateIngress c ctx sent (world s) = (Inr ing', world s') \<and>
     sent\<lparr>TLS := TLS ing\<rparr> = ing \<and> j < length (TLS ing) \<and> SecretName (TLS ing ! j) = n \<and>
     (\<forall>l<j. SecretName (TLS ing ! l) \<noteq> n) \<and> ChangeSecretName n = Inr m \<and> m \<noteq> n \<and>
     TLS sent = (TLS ing)[j := (TLS ing ! j)\<lparr>SecretName := m\<rparr>] \<and> held_names s' = held_names s"
proof -
  obtain k ts where re: "rename_first 0 n (TLS ing) = Inr (k, ts)"
    and upd: "updateIngress c ctx (ing\<lparr>TLS := ts\<rparr>) (world s) = (Inr ing', world s')"
    and held: "held_names s' = held_names s"
    by (rule change_success [OF assms(1,2)])
  from rename_first_spec [of 0 n "TLS ing"] re assms(3) obtain j m where
    "j < length (TLS ing)" "SecretName (TLS ing ! j) = n" "\<forall>l<j. SecretName (TLS ing ! l) \<noteq> n"
    "ChangeSecretName n = Inr m" "m \<noteq> n" "ts = (TLS ing)[j := (TLS ing ! j)\<lparr>SecretName := m\<rparr>]"
    by auto
  with upd held show ?thesis by (intro exI [of _ "ing\<lparr>TLS := ts\<rparr>"] exI [of _ j] exI [of _ m]) simp
qed

theorem changeIngressSecretName_renames_one_witness:
  "\<exists>ing' s'. changeIngressSecretName fake background example_ingress ''web-tls'' start_state =
      Some (Ret (None, ing'), s') \<and>
     (\<exists>sent. fst (updateIngress fake background sent small_cluster) = Inr ing' \<and>
        map SecretName (TLS sent) \<noteq> [''web-tls''])"
proof -
  have "\<exists>m. rename_first 0 ''web-tls'' (TLS example_ingress) =
      Inr (0, [\<lparr>Hosts = ''web.example'', SecretName = m\<rparr>])"
    using secret.change_succeeds [of "''web-tls''"] by (auto simp: example_ingress_def)
  then obtain m where "rename_first 0 ''web-tls'' (TLS example_ingress) =
      Inr (0, [\<lparr>Hosts = ''web.example'', SecretName = m\<rparr>])" by blast
  then have "\<exists>ing' s'. changeIngressSecretName fake background example_ingress ''web-tls'' start_state =
      Some (Ret (None, ing'), s')"
    by (simp add: changeIngressSecretName_def fake_simps Let_def nm_defs IngressKey_def example_ingress_def)
  then obtain ing' s' where run: "changeIngressSecretName fake background example_ingress ''web-tls'' start_state =
      Some (Ret (None, ing'), s')" by blast
  have "''web-tls'' \<in> set (map SecretName (TLS example_ingress))" by (simp add: example_ingress_def)
  from changeIngressSecretName_renames_one [OF start_state_mutex(1) run this] obtain sent j m where
    "updateIngress fake background sent small_cluster = (Inr ing', world s')" "m \<noteq> ''web-tls''"
    "j < length (TLS example_ingress)"
    "TLS sent = (TLS example_ingress)[j := (TLS example_ingress ! j)\<lparr>SecretName := m\<rparr>]" by auto
  then have "fst (updateIngress fake background sent small_cluster) = Inr ing'"
    and "map SecretName (TLS sent) \<noteq> [''web-tls'']" by (simp_all add: example_ingress_def)
  with run show ?thesis by blast
qed

text \<open>
  C36. A change of the secret name leaves no lock behind on any way out: when the lock is taken,
  when the update fails, and when the log line after the update panics.
\<close>

theorem changeIngressSecretName_keeps_locks:
  assumes "mutex_ok s"
  shows "\<exists>r s'. changeIngressSecretName c ctx ing n s = Some (r, s') \<and> mutex_ok s' \<and>
     held_names s' = held_names s"
proof -
  obtain r w m where "changeIngressSecretName c ctx ing n s = Some (r, s\<lparr>world := w, auditMutex := m\<rparr>)"
    and "nm_inv m" and "nm_held m = held_names s" by (rule change_outcome [OF assms])
  then show ?thesis by (auto simp: mutex_ok_def held_names_def)
qed

theorem changeIngressSecretName_keeps_locks_witness:
  "\<exists>r s'. changeIngressSecretName fake background example_ingress ''other'' start_state = Some (r, s') \<and>
     held_names s' = {}"
  using changeIngressSecretName_keeps_locks [OF start_state_mutex(1), of fake background example_ingress "''other''"]
  by auto

text \<open>
  C31. With permission to read secrets, an Ingress without TLS entries and without a challenge path
  makes the audit delete the secret with the empty name: no certificate is read, the remaining time
  is taken to be zero, and for every threshold from the validated range up to 106751 days that is
  within the threshold. The refusal of that deletion ends the audit with its error.
\<close>

theorem audit_deletes_nameless_secret:
  assumes "AdminUserPermission cfg" and "0 < sint (RenewalThreshold cfg)"
    and "sint (RenewalThreshold cfg) \<le> 106751"
    and "http_rules ing" and "\<not> has_challenge ing" and "TLS ing = []"
    and "deleteSecret c ctx (Namespace ing) [] (world s) = (Some err, w)"
  shows "cron_audit_items c cfg ctx (ing # rest) n m s = Some (Ret (Some (ApiErr err), n, m), s\<lparr>world := w\<rparr>)"
proof -
  have "within_threshold 0 (RenewalThreshold cfg)"
    using sint_threshold [of "RenewalThreshold cfg"] assms(2,3) by (simp add: within_threshold_def)
  then show ?thesis
    using assms cron_scan.scan_http [OF assms(4)]
    by (simp add: timeRemainingCertificateUpToRenewal_def deleteIngressSecret_def)
qed

theorem audit_deletes_nameless_secret_witness:
  "\<exists>s'. cron_audit_items fake (ten_second_config\<lparr>AdminUserPermission := True\<rparr>) background
     [example_ingress\<lparr>Rules := None, TLS := []\<rparr>, example_ingress] 0 0 start_state =
     Some (Ret (Some (ApiErr NotFound), 0, 0), s')"
proof -
  let ?i = "example_ingress\<lparr>Rules := None, TLS := []\<rparr>"
  have "deleteSecret fake background (Namespace ?i) [] (world start_state) = (Some NotFound, tick small_cluster)"
    by (simp add: fake_simps example_ingress_def)
  from audit_deletes_nameless_secret [OF _ _ _ _ _ _ this] show ?thesis
    by (force simp: ten_second_config_def http_rules_def has_challenge_def simp del: cron_audit_items.simps)
qed

text \<open>
  The watching variant of the wait reports success only on a modification of the Ingress after
  which it has no challenge path, with the time from the call to that event; the watcher is stopped.
\<close>

lemma waitForChallengeAbsenceNew_success:
  assumes "waitForChallengeAbsenceNew c ctx timeout ns n s = Some (Ret (d, None), s')"
  shows "\<exists>watcher t v ing w. selectWatch c watcher t ctx v = (WatchEvent Modified (ObjIngress ing), w) \<and>
     \<not> has_challenge ing \<and> d = time_sub (now c w) (now c (world s)) \<and>
     world s' = stopWatch c watcher w"
proof -
  obtain got w where open_watch: "watchIngresses c ctx ns n (world s) = (got, w)"
    by (cases "watchIngresses c ctx ns n (world s)")
  obtain watcher where got: "got = Inr watcher"
    using assms open_watch by (cases got) (auto simp: waitForChallengeAbsenceNew_def)
  let ?t = "now c w + sint timeout" and ?start = "now c (world s)"
  obtain s1 where loop: "for_loop (absence_new_body c watcher ?t ctx ?start) (s\<lparr>world := w\<rparr>) =
      Some (Ret (d, None), s1)" and s': "s' = s1\<lparr>world := stopWatch c watcher (world s1)\<rparr>"
    using assms open_watch got
    by (auto simp: waitForChallengeAbsenceNew_def Let_def split: option.splits)
  obtain u where u: "absence_new_body c watcher ?t ctx ?start u = Inl (Ret (d, None), s1)"
    using for_loop_SomeD [OF loop] by blast
  obtain e v where ev: "selectWatch c watcher ?t ctx (world u) = (e, v)"
    by (cases "selectWatch c watcher ?t ctx (world u)")
  with u obtain ing where "e = WatchEvent Modified (ObjIngress ing)"
    "cron_isContainsAcmeChallenge ing = Ret False" "d = time_sub (now c v) ?start" "world s1 = v"
    by (auto simp: absence_new_body_def Let_def
        split: select_event.splits if_splits obj.splits outcome.splits)
  moreover from this(2) have "\<not> has_challenge ing" using cron_scan.scan_Ret by blast
  ultimately show ?thesis using ev s'
    by (intro exI [of _ watcher] exI [of _ ?t] exI [of _ "world u"] exI [of _ ing] exI [of _ v]) simp
qed

definition disappearing :: "cluster base" where
  "disappearing = start_state\<lparr>world := small_cluster\<lparr>script :=
     [WatchEvent Modified (ObjIngress (example_ingress\<lparr>Rules := None\<rparr>))]\<rparr>\<rparr>"

end
