(* ===== verification/Logger.thy ===== *)
theory Logger
  imports ConfigEnv
begin

text \<open>
  \<open>loggerpkg/logger.go\<close>: the logger that is built while the package is initialized, and the
  encoder of the caller. Building is the logging library's part: it is a parameter that takes the
  configuration the code assembles.
\<close>

section \<open>Levels\<close>

text \<open>The names of the two levels the code chooses between; what they mean is the logging library's.\<close>

datatype level = DebugLevel | InfoLevel

section \<open>Setting up\<close>

record log_config =
  LogLevel :: level
  Development :: bool
  DisableStacktrace :: bool
  DisableCaller :: bool
  Encoding :: string

definition Getenv :: "env \<Rightarrow> string \<Rightarrow> string" where
  "Getenv env key = (case env key of None \<Rightarrow> [] | Some v \<Rightarrow> v)"

definition logger_config :: "env \<Rightarrow> log_config" where
  "logger_config env =
     (let notDev = (Getenv env ''RUN_MODE'' \<noteq> ''dev'');
          logLevel = (if notDev then InfoLevel else DebugLevel);
          disableCaller = notDev;
          logOutput = (if Getenv env ''LOG_OUTPUT'' \<noteq> [] then Getenv env ''LOG_OUTPUT'' else ''console'')
      in \<lparr>LogLevel = logLevel, Development = \<not> disableCaller, DisableStacktrace = disableCaller,
          DisableCaller = disableCaller, Encoding = logOutput\<rparr>)"

definition logger_init :: "(log_config \<Rightarrow> string + 'l) \<Rightarrow> env \<Rightarrow> 'l outcome" where
  "logger_init build env =
     (case build (logger_config env) of
        Inl err \<Rightarrow> Panic (PanicMessage (''Failed to build logger: '' @ err))
      | Inr l \<Rightarrow> Ret l)"

definition GetLogger :: "'l \<Rightarrow> 'l" where
  "GetLogger sugarLogger = sugarLogger"

definition GetNamedLogger :: "('l \<Rightarrow> string \<Rightarrow> 'l) \<Rightarrow> 'l \<Rightarrow> string \<Rightarrow> 'l" where
  "GetNamedLogger named sugarLogger name = named sugarLogger name"

section \<open>The caller encoder\<close>

record entry_caller =
  Defined :: bool
  FullPath :: string
  Line :: i64

definition customCallerEncoder :: "entry_caller \<Rightarrow> string" where
  "customCallerEncoder caller =
     (if \<not> Defined caller then ''undefined''
      else
        (let segments = split_on CHR ''/'' (FullPath caller); n = length segments in
         if n > 1
         then segments ! (n - 2) @ ''/'' @ segments ! (n - 1) @ '':'' @ itoa (Line caller)
         else FullPath caller @ '':'' @ itoa (Line caller)))"

lemma split_on_two:
  assumes "CHR ''/'' \<notin> set folder" and "CHR ''/'' \<notin> set file"
  shows "split_on CHR ''/'' (dir @ CHR ''/'' # folder @ CHR ''/'' # file) =
     split_on CHR ''/'' dir @ [folder, file]"
  using assms by (simp add: split_on_append_sep split_on_free)

section \<open>Properties\<close>

definition output_or_console :: "env \<Rightarrow> string" where
  "output_or_console env = (case env ''LOG_OUTPUT'' of
     Some (x # xs) \<Rightarrow> x # xs | _ \<Rightarrow> ''console'')"

text \<open>
  C40. The logger's configuration and the program's read \<open>RUN_MODE\<close> differently. The logger is built
  with level debug, in development mode and with callers and stack traces exactly when the variable
  is dev; in every other environment, an unset variable included, with level info and without
  them. \<open>LoadConfig\<close> takes an unset variable to be dev, so that an accepted configuration in mode dev
  comes with a debug logger exactly when the variable is set.
\<close>

theorem logger_level_and_mode:
  "logger_config env =
     (if env ''RUN_MODE'' = Some ''dev''
      then \<lparr>LogLevel = DebugLevel, Development = True, DisableStacktrace = False, DisableCaller = False,
            Encoding = output_or_console env\<rparr>
      else \<lparr>LogLevel = InfoLevel, Development = False, DisableStacktrace = True, DisableCaller = True,
            Encoding = output_or_console env\<rparr>) \<and>
   (LoadConfig env = Inr cfg \<longrightarrow> RunMode cfg = ''dev'' \<longrightarrow>
      (LogLevel (logger_config env) = DebugLevel \<longleftrightarrow> env ''RUN_MODE'' \<noteq> None))"
proof (intro conjI impI)
  show mode: "logger_config env =
     (if env ''RUN_MODE'' = Some ''dev''
      then \<lparr>LogLevel = DebugLevel, Development = True, DisableStacktrace = False, DisableCaller = False,
            Encoding = output_or_console env\<rparr>
      else \<lparr>LogLevel = InfoLevel, Development = False, DisableStacktrace = True, DisableCaller = True,
            Encoding = output_or_console env\<rparr>)"
    by (auto simp: logger_config_def Let_def Getenv_def output_or_console_def split: option.split list.split)
  assume "LoadConfig env = Inr cfg" and "RunMode cfg = ''dev''"
  then have "env ''RUN_MODE'' = None \<or> env ''RUN_MODE'' = Some ''dev''"
    by (auto simp: LoadConfig_def Let_def getEnv_def split: option.splits)
  then show "LogLevel (logger_config env) = DebugLevel \<longleftrightarrow> env ''RUN_MODE'' \<noteq> None"
    by (auto simp: logger_config_def Let_def Getenv_def)
qed

theorem logger_level_and_mode_witness:
  "\<exists>cfg. LoadConfig Map.empty = Inr cfg \<and> RunMode cfg = ''dev'' \<and>
     LogLevel (logger_config Map.empty) \<noteq> DebugLevel"
proof -
  have "\<exists>cfg. LoadConfig Map.empty = Inr cfg \<and> RunMode cfg = ''dev''"
    by (simp add: LoadConfig_def Let_def getEnv_def getEnvAsInt_def validate_def atoi_def parse_uint_def)
  then show ?thesis using logger_level_and_mode [of Map.empty] by fastforce
qed

text \<open>
  For a caller deep enough in the tree, whose full path ends in the line number as the logging
  library's does, the encoder keeps the folder and the file, as documented, but writes the line
  number twice.
\<close>

lemma customCallerEncoder_repeats_line:
  assumes "CHR ''/'' \<notin> set folder" and "CHR ''/'' \<notin> set file"
    and "Defined caller"
    and "FullPath caller = dir @ ''/'' @ folder @ ''/'' @ file @ '':'' @ itoa (Line caller)"
  shows "customCallerEncoder caller =
     folder @ ''/'' @ file @ '':'' @ itoa (Line caller) @ '':'' @ itoa (Line caller)"
proof -
  have "CHR ''/'' \<notin> set (itoa (Line caller))" by (rule itoa_no_slash)
  then have "CHR ''/'' \<notin> set (file @ '':'' @ itoa (Line caller))" using assms(2) by simp
  from split_on_two [OF assms(1) this, of dir]
  have "split_on CHR ''/'' (FullPath caller) =
      split_on CHR ''/'' dir @ [folder, file @ '':'' @ itoa (Line caller)]"
    unfolding assms(4) by simp
  then show ?thesis using assms(3)
    by (simp add: customCallerEncoder_def Let_def nth_append split_on_free)
qed

end
