(* ===== verification/CronMain.thy ===== *)
theory CronMain
  imports CronAudit Logger
begin

text \<open>
  \<open>cronjob/cmd/ingress-annotation-modifier/main.go\<close> and the construction of the cron job's
  watcher: from the environment variables to the exit code of the process. The client libraries'
  constructors and the text of an error are parameters, collected in a record.

  The exit codes are Go's: 0 for a \<open>main\<close> that returns, 1 for the logger's \<open>Fatal\<close>, 2 for a
  panic.
\<close>

section \<open>Starting up\<close>

record 'l platform =
  buildLogger :: "log_config \<Rightarrow> string + 'l"
  inClusterConfig :: "string option"
  newForConfig :: "string option"
  getConfig :: "string option"
  addToScheme :: "string option"
  newCtrlClient :: "string option"
  errorText :: "go_error \<Rightarrow> string"

datatype 'a boot = Booted 'a | FatalExit

definition setupKubernetesClient :: "'l platform \<Rightarrow> string option" where
  "setupKubernetesClient p =
     (case inClusterConfig p of
        Some err \<Rightarrow> Some (''error getting in-cluster config: '' @ err)
      | None \<Rightarrow>
          (case newForConfig p of
             Some err \<Rightarrow> Some (''error creating Kubernetes client: '' @ err)
           | None \<Rightarrow> None))"

text \<open>
  Every failure in the constructor ends the process through the logger's \<open>Fatal\<close>, before its
  return statement is reached. The watcher's own state is the new mutex.
\<close>

definition cron_NewIngressWatcher :: "'l platform \<Rightarrow> nmutex boot" where
  "cron_NewIngressWatcher p =
     (if getConfig p \<noteq> None then FatalExit
      else if addToScheme p \<noteq> None then FatalExit
      else if newCtrlClient p \<noteq> None then FatalExit
      else Booted NewNamedMutex)"

definition runIngressWatcher ::
  "'l platform \<Rightarrow> 'w client \<Rightarrow> ConfigEnv \<Rightarrow> 'w \<Rightarrow> (string option outcome boot \<times> 'w) option" where
  "runIngressWatcher p c cfg w =
     (case cron_NewIngressWatcher p of
        FatalExit \<Rightarrow> Some (FatalExit, w)
      | Booted mutex \<Rightarrow>
          (let ctx = withTimeout background (now c w) (10 * minute) in
           case AuditIngressResources c cfg ctx \<lparr>world = w, auditMutex = mutex\<rparr> of
             None \<Rightarrow> None
           | Some (Panic e, s) \<Rightarrow> Some (Booted (Panic e), world s)
           | Some (Ret (Some err, _), s) \<Rightarrow>
               Some (Booted (Ret (Some (''error auditing Ingress resources: '' @ errorText p err))), world s)
           | Some (Ret (None, _), s) \<Rightarrow> Some (Booted (Ret None), world s)))"

definition run ::
  "'l platform \<Rightarrow> 'w client \<Rightarrow> ConfigEnv \<Rightarrow> 'w \<Rightarrow> (string option outcome boot \<times> 'w) option" where
  "run p c cfg w =
     (case setupKubernetesClient p of
        Some err \<Rightarrow> Some (Booted (Ret (Some err)), w)
      | None \<Rightarrow> runIngressWatcher p c cfg w)"

definition cron_main :: "'l platform \<Rightarrow> 'w client \<Rightarrow> env \<Rightarrow> 'w \<Rightarrow> (nat \<times> 'w) option" where
  "cron_main p c env w =
     (case logger_init (buildLogger p) env of
        Panic e \<Rightarrow> Some (2, w)
      | Ret lg \<Rightarrow>
          (case LoadConfig env of
             Inl err \<Rightarrow> Some (1, w)
           | Inr cfg \<Rightarrow>
               (case run p c cfg w of
                  None \<Rightarrow> None
                | Some (FatalExit, w') \<Rightarrow> Some (1, w')
                | Some (Booted (Panic e), w') \<Rightarrow> Some (2, w')
                | Some (Booted (Ret (Some err)), w') \<Rightarrow> Some (0, w')
                | Some (Booted (Ret None), w') \<Rightarrow> Some (0, w'))))"

section \<open>Example\<close>

definition good_platform :: "unit platform" where
  "good_platform = \<lparr>buildLogger = (\<lambda>cfg. if Encoding cfg \<in> {''console'', ''json''} then Inr ()
       else Inl ''no encoder registered''), inClusterConfig = None, newForConfig = None,
     getConfig = None, addToScheme = None, newCtrlClient = None, errorText = (\<lambda>_. ''error'')\<rparr>"

lemma default_config_loads:
  "\<exists>cfg. LoadConfig Map.empty = Inr cfg"
  by (simp add: LoadConfig_def getEnv_def getEnvAsInt_def validate_def atoi_def parse_uint_def)

lemma default_logger_builds: "logger_init (buildLogger good_platform) Map.empty = Ret ()"
  by (simp add: logger_init_def logger_config_def good_platform_def Getenv_def Let_def)

lemma good_platform_boots [simp]:
  "setupKubernetesClient good_platform = None"
  "cron_NewIngressWatcher good_platform = Booted NewNamedMutex"
  by (simp_all add: good_platform_def setupKubernetesClient_def cron_NewIngressWatcher_def)

lemma new_mutex_ok: "mutex_ok \<lparr>world = w, auditMutex = NewNamedMutex\<rparr>"
  using nm.inv_new by (simp add: mutex_ok_def)

section \<open>Properties\<close>

text \<open>
  C15. The cron job ends: from every environment and every world the process exits, with code 0, 1
  or 2, when sleeping takes time and no call moves the clock back.
\<close>

theorem cron_main_exits:
  assumes "clock_ok c"
  shows "\<exists>code w'. cron_main p c env w = Some (code, w') \<and> code \<in> {0, 1, 2}"
proof -
  have runs: "\<exists>r v. run p c cfg w = Some (r, v)" for cfg
  proof -
    obtain r s where "AuditIngressResources c cfg (withTimeout background (now c w) (10 * minute))
        \<lparr>world = w, auditMutex = NewNamedMutex\<rparr> = Some (r, s)"
      using returns_onD [OF cron_audit_return [OF assms] new_mutex_ok] by blast
    then show ?thesis
      by (cases "cron_NewIngressWatcher p")
         (auto simp: run_def runIngressWatcher_def cron_NewIngressWatcher_def Let_def
            split: option.split outcome.split if_splits)
  qed
  show ?thesis
  proof (cases "LoadConfig env")
    case (Inl err)
    then show ?thesis by (simp add: cron_main_def split: outcome.split)
  next
    case (Inr cfg)
    obtain r v where "run p c cfg w = Some (r, v)" using runs by blast
    with Inr show ?thesis
      by (auto simp: cron_main_def split: outcome.split boot.split option.split)
  qed
qed

theorem cron_main_exits_witness:
  "\<exists>code w'. cron_main good_platform fake Map.empty small_cluster = Some (code, w') \<and> code \<in> {0, 1, 2}"
  by (rule cron_main_exits [OF fake_clock_ok])

text \<open>
  A failed audit does not show in the exit code: whatever error the audit ends with, the process
  exits with 0, as after a success.
\<close>

theorem failed_audit_exits_zero:
  assumes "logger_init (buildLogger p) env = Ret lg" and "LoadConfig env = Inr cfg"
    and "setupKubernetesClient p = None" and "cron_NewIngressWatcher p = Booted mutex"
    and "AuditIngressResources c cfg (withTimeout background (now c w) (10 * minute))
           \<lparr>world = w, auditMutex = mutex\<rparr> = Some (Ret (Some err, counts), s)"
  shows "cron_main p c env w = Some (0, world s)"
  using assms by (simp add: cron_main_def run_def runIngressWatcher_def Let_def)

theorem failed_audit_exits_zero_witness:
  "\<exists>w'. cron_main good_platform (fake\<lparr>listIngresses := (\<lambda>ctx w. (Inl Conflict, w))\<rparr>) Map.empty small_cluster =
     Some (0, w')"
proof -
  let ?c = "fake\<lparr>listIngresses := (\<lambda>ctx w. (Inl Conflict, w))\<rparr>"
  obtain cfg where cfg: "LoadConfig Map.empty = Inr cfg" using default_config_loads by blast
  have "AuditIngressResources ?c cfg (withTimeout background (now ?c small_cluster) (10 * minute))
      \<lparr>world = small_cluster, auditMutex = NewNamedMutex\<rparr> =
      Some (Ret (Some (ApiErr Conflict), 0, 0), \<lparr>world = small_cluster, auditMutex = NewNamedMutex\<rparr>)"
    by (simp add: AuditIngressResources_def)
  from failed_audit_exits_zero [OF default_logger_builds cfg good_platform_boots this] show ?thesis by blast
qed

end
