(* ===== verification/Spec2Isabelle.thy ===== *)
theory Spec2Isabelle
  imports SecretNames NamedMutexConc ConcProperties StepsAgree OperatorBoot Deletions WatchClient Settings DeepCopy CronMain
begin

text \<open>
  A verification library for Nimble Opti Adapter, which keeps ACME certificates of Kubernetes
  Ingress objects renewable when they carry the annotation
  \<open>nginx.ingress.kubernetes.io/backend-protocol: HTTPS\<close>: it takes the annotation off, waits until
  the ACME challenge path has disappeared from the Ingress, and puts the annotation back. Two
  programs do this: an operator (\<open>cmd/main.go\<close>, \<open>internal/controller\<close>) that reacts to added
  Ingress objects and audits the cluster every day, and a cron job (\<open>cronjob\<close>) that audits once
  and exits. Both use \<open>utils\<close>; the operator has the custom resource of \<open>api/v1\<close> for its
  settings, the cron job environment variables.

  Theories, in the order of the code's layers.

  \<^item> \<open>Prelude\<close>, \<open>Loops\<close>: a state monad in which \<open>None\<close> is a call that never returns
    and a panic is an outcome; rules for keeping an invariant (\<open>keeps\<close>) and for returning
    (\<open>returns_on\<close>); 64-bit words for \<open>int\<close> and \<open>time.Duration\<close>; the endless
    \<open>for\<close>/\<open>select\<close> loops with the lemma that the first deciding iteration gives the result.
  \<^item> \<open>GoStrings\<close>: the functions of Go's \<open>strings\<close> and \<open>strconv\<close> that the code uses.
  \<^item> \<open>SecretNames\<close> (\<open>utils/strings.go\<close>): version suffixes of secret names; refinement to a
    step on (parts, version), rotation, wrap-around.
  \<^item> \<open>NamedMutexSeq\<close>, \<open>NamedMutexConc\<close> (\<open>utils/namedmutex.go\<close>): the named mutex as a map
    from names to a token and a flag. First each method on its own, with the contract
    \<open>blocking_lock\<close> and the refinement to a set of held names; then every memory and channel
    operation of every method as a step of any number of goroutines, with mutual exclusion,
    refinement to a map of owners, progress, and what fails without the discipline of the callers.
  \<^item> \<open>KubeTypes\<close>: the custom resource and its webhooks, the fields of an Ingress, the lock key.
  \<^item> \<open>ClientEnv\<close>: the environment as a record of functions on an arbitrary type of worlds: API
    calls, clock, watches, PEM and X.509 decoding. Every call returns a new world, so anything may
    have happened to the cluster in between. \<open>FakeCluster\<close> is one instance, for concrete runs.
  \<^item> \<open>Annotations\<close>, \<open>Challenge\<close>, \<open>WatchLoops\<close>, \<open>RenewalRound\<close>, \<open>Renewal\<close>,
    \<open>Metrics\<close>: the operator's functions one by one. The locales \<open>annotation_pair\<close>,
    \<open>challenge_scan\<close>, \<open>absence_wait\<close> and \<open>renewal_round\<close> state what the parts promise
    each other; they are interpreted on the operator's definitions here and on the cron job's in
    \<open>CronWatcher\<close>, so each lemma about a round holds for both.
  \<^item> \<open>Settings\<close>, \<open>WatchClient\<close>: the validation markers of the settings and what they give the
    operator; the watch clients of both programs and the events they let through.
  \<^item> \<open>OperatorLoop\<close>, \<open>OperatorMain\<close>, \<open>OperatorBoot\<close>: the operator as a transition system of
    handlers, its invariant, the termination of its handlers and when they panic; the flags and the
    audit loop; the startup with its values (API group, scheme, manager, watcher, controller,
    webhook, health checks), where it stops and with which exit code, and what a started manager has.
  \<^item> \<open>Deletions\<close>: the calls of an environment written down in a log, in which every deletion of a
    secret by an audit follows the reads that make it due.
  \<^item> \<open>Machines\<close>, \<open>OperatorSteps\<close>, \<open>StepsAgree\<close>: every function of the operator again as a machine
    of small steps (one API call, one method of the mutex, one metric, one sleep), and the proof that
    each machine, run alone, computes the function.
  \<^item> \<open>Goroutines\<close>, \<open>RoundSteps\<close>, \<open>OperatorConc\<close>, \<open>ConcProperties\<close>: the informer's and the
    audit's goroutines interleaved step by step with each other and with any changes of the cluster
    by others; the methods of the mutex are single steps there. The locale \<open>round_host\<close> passes from callee to caller that a goroutine changes Ingress
    objects, the mutex and the metrics only inside a renewal round. Exclusion of the edits, no lost
    updates, progress and end of a round, and the schedule in which two rounds disturb each other.
  \<^item> \<open>DeepCopy\<close> (\<open>api/v1/zz_generated.deepcopy.go\<close>): the deep copies over a store of arrays in
    which slices are windows; a copy is equal to the original and independent of it.
  \<^item> \<open>ConfigEnv\<close>, \<open>Logger\<close>, \<open>CronWatcher\<close>, \<open>CronAudit\<close>, \<open>CronMain\<close>: the cron
    job from its environment variables to its exit code.

  How state corresponds: the receiver \<open>*IngressWatcher\<close> is the record \<open>base\<close> (the world and
  the named mutex), extended by the metrics for the operator (\<open>operator\<close>). A pointer to an
  Ingress that a function overwrites is an argument and a result. Contexts are their deadlines.
  Logging is left out, except for the evaluation of its arguments where that can panic.

  Bounds. No fuel is used: loops are \<open>partial_function\<close> over options, and termination is proved
  under \<open>clock_ok\<close> (calls do not move the clock back, sleeping takes as long as asked) and, for
  watches, \<open>watch_ends\<close> (the timer or another deciding event arrives). Durations are 64-bit; the
  bounds 106751 days and 4611686018 seconds are where products of the settings leave that range.

  What the properties show: renewals that report no error have restored the annotation and left no
  lock, and are reported only after the challenge was seen to be gone; the waits and watches return
  the verdict of the first deciding poll or event; audits return, concern eligible objects only
  and delete only secrets whose certificate they have just found to be due; the named mutex excludes. They also show where
  this ends: a failed fetch leaks the lock of an Ingress, a failed wait leaves the annotation off
  and thereby the Ingress out of all later audits, a rule without an HTTP part crashes, a failed
  cron job exits with 0, and long delays and thresholds overflow.

  In the interleaved model the renewals of two goroutines exclude each other in every edit and lose
  no update of each other, but not during the wait between the edits. The number of own steps of a
  round is bounded by three for each second of the delay and fifteen, and no interleaving lets the
  counter of renewals get ahead of the observations.

  Not modelled: the Kubernetes and controller-runtime libraries, the logging library's output and the
  Prometheus collectors, which are parameters or left out; the deployment files. The memory inside
  the named mutex is interleaved in \<open>NamedMutexConc\<close>, where locking and unlocking refine a map of
  owners, and \<open>IsLocked\<close> may miss a name that is just being taken; the interleaving of the operator
  takes each method as one step. The cron job has one goroutine.
\<close>

section \<open>The two programs on one cluster\<close>

lemma ineligible_dropped:
  "\<not> eligible i \<Longrightarrow> audit_items c ctx (xs @ i # ys) = audit_items c ctx (xs @ ys)"
  using audit_items_filter [of c ctx "xs @ i # ys"] audit_items_filter [of c ctx "xs @ ys"] by simp

text \<open>
  C1. An Ingress whose renewal wait failed is orphaned. Take an eligible Ingress with a challenge
  that the informer hands to its handler, or that is next in an audit; its annotation has been taken
  off, and the wait then fails. The handler, or the audit, ends right there, with the annotation off
  in what the server stored. Any later audit, of whatever list, and any later handler run passes over
  a version of the Ingress with these annotations as if it were not there, so neither of them puts
  the annotation back. This is about renewals for a challenge path; in the pass over expiring
  certificates a failed renewal is followed by the next TLS entry of the same Ingress.
\<close>

theorem failed_wait_orphans_ingress:
  assumes "mutex_ok s" and "eligible ing" and "isContainsAcmeChallenge ing = Ret True"
    and key: "metaNamespaceKey c (ObjIngress ing) = Inr key" "key \<notin> held_names s"
    and settings: "getOrCreateNimbleOpti c background (Namespace ing) s = Some (Ret (Inr adapter), s0)"
    and removal: "removeHTTPSAnnotation c background ing s0 = Some (Ret (None, ing1), s1)"
    and wait: "waitForChallengeAbsence c background (AnnotationRemovalDelay (Spec adapter) * second)
           (Namespace ing1) (Name ing1) s1 = Some (Ret (d, Some e), s2)"
    and stored: "\<forall>i v i' w. updateIngress c background i v = (Inr i', w) \<longrightarrow> Annotations i' = Annotations i"
  shows "addFunc c (ObjIngress ing) s = Some (Ret (), s2) \<and>
     audit_items c background (ing # rest) s = Some (Ret (Some e), s2) \<and>
     annotations_of ing1 backendProtocol = None \<and>
     (\<forall>c' ctx' i t xs ys k. Annotations i = Annotations ing1 \<longrightarrow>
        audit_items c' ctx' (xs @ i # ys) t = audit_items c' ctx' (xs @ ys) t \<and>
        (metaNamespaceKey c' (ObjIngress i) = Inr k \<longrightarrow> addFunc c' (ObjIngress i) t = Some (Ret (), t)))"
proof -
  have ok: "mutex_ok s0" using settings_outcome [of c background "Namespace ing" s] settings assms(1) by auto
  obtain last w w2 m where
    "updateIngress c background (last\<lparr>Annotations := without_https (Annotations last)\<rparr>) w = (Inr ing1, w2)"
    using op_annotations.remove.edit_success [OF ok removal] by metis
  with stored have "Annotations ing1 = without_https (Annotations last)" by fastforce
  then have off: "annotations_of ing1 backendProtocol = None"
    by (cases "Annotations last") (simp_all add: annotations_of_def without_https_def)
  have out: "\<not> eligible i" if "Annotations i = Annotations ing1" for i
    using off that by (simp add: eligible_def isBackendHttpsAnnotations_def annotations_of_def backendProtocol_def)
  have "startCertificateRenewal c background ing adapter s0 = Some (Ret (False, Some e, ing1), s2)"
    using op_round.renew_wait_failed [OF ok removal, of adapter d e s2] wait by (simp add: op_timeout_def)
  then have process: "processIngressForRenewal c background ing s = Some (Ret (False, Some e, ing1), s2)"
    using settings assms(3) by (simp add: processIngressForRenewal_def)
  have "addFunc c (ObjIngress ing) s = Some (Ret (), s2)"
    using process key assms(2)
    by (simp add: addFunc_def handleIngressAdd_def eligible_def held_names_def nm.is_locked)
  moreover have "audit_items c background (ing # rest) s = Some (Ret (Some e), s2)"
    using process assms(2) by (simp add: eligible_def)
  moreover have "audit_items c' ctx' (xs @ i # ys) t = audit_items c' ctx' (xs @ ys) t \<and>
      (metaNamespaceKey c' (ObjIngress i) = Inr k \<longrightarrow> addFunc c' (ObjIngress i) t = Some (Ret (), t))"
    if "Annotations i = Annotations ing1" for c' :: "'b client" and ctx' i t xs ys k
    using ineligible_dropped [OF out [OF that], of c' ctx' xs ys] addFunc_skips [of c' i k t] out [OF that] by auto
  ultimately show ?thesis using off by blast
qed

text \<open>The cluster of \<open>flaky\<close> with stored settings: the fetch that follows the edit fails.\<close>

definition orphaning :: "cluster client" where
  "orphaning = flaky\<lparr>getNimbleOpti := (\<lambda>ctx ns n w. (Inr ten_seconds, w))\<rparr>"

lemma orphaning_run:
  "\<exists>ing1 s1 d s2. removeHTTPSAnnotation orphaning background example_ingress (operator_start small_cluster) =
      Some (Ret (None, ing1), s1) \<and>
     waitForChallengeAbsence orphaning background (AnnotationRemovalDelay (Spec ten_seconds) * second)
       (Namespace ing1) (Name ing1) s1 =
       Some (Ret (d, Some (ApiErr (OtherApiError ''connection refused''))), s2)"
proof -
  obtain ing1 s1 where rem: "removeHTTPSAnnotation orphaning background example_ingress (operator_start small_cluster) =
      Some (Ret (None, ing1), s1)" "clk (world s1) = 2000000"
    by (simp add: orphaning_def flaky_def removeHTTPSAnnotation_def fake_simps operator_start_def Let_def nm_defs
        IngressKey_def example_ingress_def)
  have "\<exists>d s2. waitForChallengeAbsence orphaning background
      (AnnotationRemovalDelay (Spec ten_seconds) * second) (Namespace ing1) (Name ing1) s1 =
      Some (Ret (d, Some (ApiErr (OtherApiError ''connection refused''))), s2)"
    using rem(2) ten_seconds_timeout
    by (simp add: waitForChallengeAbsence_def absence_body_def for_loop_exit orphaning_def flaky_def fake_simps
        withTimeout_def Let_def op_timeout_def)
  with rem(1) show ?thesis by blast
qed

theorem failed_wait_orphans_ingress_witness:
  "\<exists>ing1 s2. addFunc orphaning (ObjIngress example_ingress) (operator_start small_cluster) = Some (Ret (), s2) \<and>
     annotations_of ing1 backendProtocol = None \<and>
     (\<forall>t. audit_items fake background [ing1] t = Some (Ret None, t))"
proof -
  let ?s = "operator_start small_cluster"
  obtain ing1 s1 d s2 where
    removal: "removeHTTPSAnnotation orphaning background example_ingress ?s = Some (Ret (None, ing1), s1)"
    and wait: "waitForChallengeAbsence orphaning background (AnnotationRemovalDelay (Spec ten_seconds) * second)
       (Namespace ing1) (Name ing1) s1 = Some (Ret (d, Some (ApiErr (OtherApiError ''connection refused''))), s2)"
    using orphaning_run by metis
  have eligible: "eligible example_ingress"
    by (simp add: eligible_def isAdapterEnabledLabel_def isBackendHttpsAnnotations_def annotations_of_def
        example_ingress_def)
  have scan: "isContainsAcmeChallenge example_ingress = Ret True"
    using example_scan by (simp add: contains_scan.scan_first)
  have key: "metaNamespaceKey orphaning (ObjIngress example_ingress) = Inr (IngressKey example_ingress)"
    by (simp add: orphaning_def flaky_def fake_def)
  have settings: "getOrCreateNimbleOpti orphaning background (Namespace example_ingress) ?s =
      Some (Ret (Inr ten_seconds), ?s)"
    by (simp add: getOrCreateNimbleOpti_def orphaning_def)
  have stored: "\<forall>i v i' w. updateIngress orphaning background i v = (Inr i', w) \<longrightarrow> Annotations i' = Annotations i"
    by (auto simp: orphaning_def flaky_def fake_simps split: option.splits)
  have "IngressKey example_ingress \<notin> held_names ?s" by simp
  note orphaned = failed_wait_orphans_ingress
    [OF operator_start_simps(2) eligible scan key this settings removal wait stored, where rest = "[]"]
  then have "\<forall>t :: cluster operator. audit_items fake background ([] @ ing1 # []) t = audit_items fake background ([] @ []) t"
    by blast
  then have "\<forall>t. audit_items fake background [ing1] t = Some (Ret None, t)" by simp
  with orphaned show ?thesis by blast
qed

end
